theory Spec2Isabelle
  imports Main "HOL-Library.Sublist" "HOL-Library.AList"
begin

section \<open>ElectroInit: the scaffold generator \<^verbatim>\<open>init.js\<close>\<close>

text \<open>
  A shallow embedding of the parts of \<^verbatim>\<open>init.js\<close> that carry design decisions:
  the version helpers (\<^verbatim>\<open>normalizeVersion\<close>, \<^verbatim>\<open>parseSemver\<close>, \<^verbatim>\<open>compareSemver\<close>,
  \<^verbatim>\<open>isPreRelease\<close>, \<^verbatim>\<open>parseMajor\<close>), the release matcher \<^verbatim>\<open>pickElectronVersion\<close>,
  the recursive copy \<^verbatim>\<open>copyDir\<close>, the part of \<^verbatim>\<open>main\<close> that clears the target
  directory and reuses the cached scaffold, and the two \<^verbatim>\<open>runNpmInstall\<close> steps.

  Conventions of the model.
  \<^item> A JavaScript string is a \<^typ>\<open>string\<close>: a list of code units below 256
    (ASCII and Latin-1).
  \<^item> A JavaScript number that holds an integer is an \<^typ>\<open>int\<close>; \<^verbatim>\<open>NaN\<close> is
    \<^term>\<open>None\<close> of \<^typ>\<open>int option\<close>. The rounding of doubles above \<open>2\<^sup>5\<^sup>3\<close> is not
    modelled.
  \<^item> \<^verbatim>\<open>null\<close> and \<^verbatim>\<open>undefined\<close> are \<^term>\<open>None\<close>.
\<close>

subsection \<open>Strings and \<^verbatim>\<open>parseInt\<close>\<close>

definition is_digit :: "char \<Rightarrow> bool" where
  "is_digit c = (c \<in> set ''0123456789'')"

definition digit_val :: "char \<Rightarrow> int" where
  "digit_val c = int (of_char c) - 48"

text \<open>The white space that \<^verbatim>\<open>parseInt\<close> and \<^verbatim>\<open>trim\<close> skip, as far as it lies below 256:
  TAB, LF, VT, FF, CR, SP and NBSP.\<close>

definition is_space :: "char \<Rightarrow> bool" where
  "is_space c = ((of_char c :: nat) \<in> {9, 10, 11, 12, 13, 32, 160})"

definition digits_value :: "string \<Rightarrow> int" where
  "digits_value ds = foldl (\<lambda>acc d. 10 * acc + digit_val d) 0 ds"

text \<open>
  \<^verbatim>\<open>parseInt(s, 10)\<close>: leading white space is skipped, one sign is read, then the
  longest run of decimal digits; with no digit the result is \<^verbatim>\<open>NaN\<close>.
\<close>

definition parseInt10 :: "string \<Rightarrow> int option" where
  "parseInt10 s =
     (let t = dropWhile is_space s;
          neg = (case t of [] \<Rightarrow> False | c # _ \<Rightarrow> c = CHR ''-'');
          u = (case t of [] \<Rightarrow> [] | c # r \<Rightarrow> if c = CHR ''-'' \<or> c = CHR ''+'' then r else t);
          ds = takeWhile is_digit u
      in if ds = [] then None
         else Some (if neg then - digits_value ds else digits_value ds))"

text \<open>\<^verbatim>\<open>s.split(sep)\<close> for a separator of one character: never the empty array.\<close>

primrec js_split :: "char \<Rightarrow> string \<Rightarrow> string list" where
  "js_split sep [] = [[]]"
| "js_split sep (c # cs) =
     (if c = sep then [] # js_split sep cs
      else (case js_split sep cs of [] \<Rightarrow> [[c]] | p # ps \<Rightarrow> (c # p) # ps))"

text \<open>\<^verbatim>\<open>s.startsWith("v")\<close> and \<^verbatim>\<open>s.slice(1)\<close>.\<close>

definition startsWith_v :: "string \<Rightarrow> bool" where
  "startsWith_v s = (case s of [] \<Rightarrow> False | c # _ \<Rightarrow> c = CHR ''v'')"

definition slice1 :: "string \<Rightarrow> string" where
  "slice1 s = drop 1 s"

subsection \<open>SemverLite\<close>

text \<open>
  \<^verbatim>\<open>
  function normalizeVersion(version) {
    if (!version) return "";
    return version.startsWith("v") ? version.slice(1) : version;
  }
  \<close>
\<close>

definition normalizeVersion :: "string \<Rightarrow> string" where
  "normalizeVersion version =
     (if version = [] then []
      else if startsWith_v version then slice1 version else version)"

text \<open>
  \<^verbatim>\<open>
  function parseMajor(version) {
    if (!version) return null;
    const clean = version.startsWith("v") ? version.slice(1) : version;
    const major = parseInt(clean.split(".")[0], 10);
    return Number.isFinite(major) ? major : null;
  }
  \<close>
\<close>

definition parseMajor :: "string \<Rightarrow> int option" where
  "parseMajor version =
     (if version = [] then None
      else let clean = (if startsWith_v version then slice1 version else version)
           in parseInt10 (js_split CHR ''.'' clean ! 0))"

record semver =
  major :: int
  minor :: int
  patch :: int

text \<open>\<^verbatim>\<open>parts[i] || 0\<close>: a missing component, \<^verbatim>\<open>NaN\<close> and \<open>0\<close> all give \<open>0\<close>.\<close>

definition part_or_0 :: "int option list \<Rightarrow> nat \<Rightarrow> int" where
  "part_or_0 parts i =
     (if i < length parts then (case parts ! i of None \<Rightarrow> 0 | Some n \<Rightarrow> n) else 0)"

text \<open>
  \<^verbatim>\<open>
  function parseSemver(version) {
    const clean = normalizeVersion(version);
    const core = clean.split("-")[0];
    const parts = core.split(".").map((n) => parseInt(n, 10));
    return { major: parts[0] || 0, minor: parts[1] || 0, patch: parts[2] || 0 };
  }
  \<close>
\<close>

definition parseSemver :: "string \<Rightarrow> semver" where
  "parseSemver version =
     (let clean = normalizeVersion version;
          core = js_split CHR ''-'' clean ! 0;
          parts = map parseInt10 (js_split CHR ''.'' core)
      in \<lparr>major = part_or_0 parts 0, minor = part_or_0 parts 1, patch = part_or_0 parts 2\<rparr>)"


text \<open>
  \<^verbatim>\<open>
  function compareSemver(a, b) {
    if (a.major !== b.major) return a.major - b.major;
    if (a.minor !== b.minor) return a.minor - b.minor;
    return a.patch - b.patch;
  }
  \<close>
\<close>

definition compareSemver :: "semver \<Rightarrow> semver \<Rightarrow> int" where
  "compareSemver a b =
     (if major a \<noteq> major b then major a - major b
      else if minor a \<noteq> minor b then minor a - minor b
      else patch a - patch b)"

text \<open>\<^verbatim>\<open>normalizeVersion(version).includes("-")\<close>\<close>

definition isPreRelease :: "string \<Rightarrow> bool" where
  "isPreRelease version = (CHR ''-'' \<in> set (normalizeVersion version))"

text \<open>The strict lexicographic order on \<open>(major, minor, patch)\<close>, as the specification
  words it.\<close>

definition lex_less :: "semver \<Rightarrow> semver \<Rightarrow> bool" where
  "lex_less a b =
     (major a < major b \<or>
      (major a = major b \<and> (minor a < minor b \<or> (minor a = minor b \<and> patch a < patch b))))"

subsection \<open>ReleaseMatcher\<close>

text \<open>
  One entry of the release feed. Only the fields that \<^verbatim>\<open>pickElectronVersion\<close> reads are
  kept; each is a string when present. \<^verbatim>\<open>deps\<close> is the nested object \<^verbatim>\<open>{ node: ... }\<close>.
\<close>

record deps =
  d_node :: "string option"

record release =
  r_version :: "string option"
  r_tag_name :: "string option"
  r_node :: "string option"
  r_deps :: "deps option"

datatype match_kind = Exact | Lower | Any

record candidate =
  version :: string
  node :: string
  nodeMajor :: "int option"

record picked = candidate +
  match :: match_kind

text \<open>\<^verbatim>\<open>a || b\<close> on values that are strings when present: \<^verbatim>\<open>undefined\<close>, \<^verbatim>\<open>null\<close> and
  \<^verbatim>\<open>""\<close> are falsy.\<close>

definition truthy :: "string option \<Rightarrow> bool" where
  "truthy v = (case v of None \<Rightarrow> False | Some s \<Rightarrow> s \<noteq> [])"

definition js_or :: "string option \<Rightarrow> string option \<Rightarrow> string option" where
  "js_or a b = (if truthy a then a else b)"

text \<open>\<^verbatim>\<open>r.deps && r.deps.node\<close>\<close>

definition deps_and_node :: "deps option \<Rightarrow> string option" where
  "deps_and_node d = (case d of None \<Rightarrow> None | Some o' \<Rightarrow> d_node o')"

text \<open>A value that ends in \<^verbatim>\<open>|| ""\<close> is a string.\<close>

definition or_empty :: "string option \<Rightarrow> string" where
  "or_empty v = (case v of None \<Rightarrow> [] | Some s \<Rightarrow> s)"

text \<open>
  \<^verbatim>\<open>a < b\<close> on numbers that may be \<^verbatim>\<open>null\<close>: the relational operators convert
  \<^verbatim>\<open>null\<close> to \<open>0\<close>.
\<close>

definition to_number :: "int option \<Rightarrow> int" where
  "to_number v = (case v of None \<Rightarrow> 0 | Some n \<Rightarrow> n)"

definition js_less :: "int option \<Rightarrow> int option \<Rightarrow> bool" where
  "js_less a b = (to_number a < to_number b)"

text \<open>
  \<^verbatim>\<open>Array.prototype.sort(cmp)\<close> is a stable sort: \<open>cmp a b < 0\<close> puts \<open>a\<close> first, and elements
  that compare equal keep their order. With a comparator that is a total preorder the
  result of every stable sort is the same list; the model is insertion sort.
\<close>

primrec insort_cmp :: "('a \<Rightarrow> 'a \<Rightarrow> int) \<Rightarrow> 'a \<Rightarrow> 'a list \<Rightarrow> 'a list" where
  "insort_cmp cmp x [] = [x]"
| "insort_cmp cmp x (y # ys) =
     (if cmp x y \<le> 0 then x # y # ys else y # insort_cmp cmp x ys)"

primrec js_sort :: "('a \<Rightarrow> 'a \<Rightarrow> int) \<Rightarrow> 'a list \<Rightarrow> 'a list" where
  "js_sort cmp [] = []"
| "js_sort cmp (x # xs) = insort_cmp cmp x (js_sort cmp xs)"

text \<open>The comparator of all three sorts:
  \<^verbatim>\<open>(a, b) => compareSemver(parseSemver(b.version), parseSemver(a.version))\<close>\<close>

definition newest_first :: "candidate \<Rightarrow> candidate \<Rightarrow> int" where
  "newest_first a b = compareSemver (parseSemver (version b)) (parseSemver (version a))"

text \<open>
  \<^verbatim>\<open>
  const candidates = releases
    .map((r) => {
      const version = normalizeVersion(r.version || r.tag_name || "");
      const node = r.node || (r.deps && r.deps.node) || "";
      return { version, node, nodeMajor: parseMajor(node) };
    })
    .filter((r) => r.version && r.nodeMajor !== null)
    .filter((r) => !isPreRelease(r.version));
  \<close>
\<close>

definition to_candidate :: "release \<Rightarrow> candidate" where
  "to_candidate r =
     (let version = normalizeVersion (or_empty (js_or (r_version r) (r_tag_name r)));
          node = or_empty (js_or (r_node r) (deps_and_node (r_deps r)))
      in \<lparr>version = version, node = node, nodeMajor = parseMajor node\<rparr>)"

definition candidates :: "release list \<Rightarrow> candidate list" where
  "candidates releases =
     filter (\<lambda>r. \<not> isPreRelease (version r))
       (filter (\<lambda>r. version r \<noteq> [] \<and> nodeMajor r \<noteq> None)
         (map to_candidate releases))"

definition tagged :: "candidate \<Rightarrow> match_kind \<Rightarrow> picked" where
  "tagged c m = \<lparr>version = version c, node = node c, nodeMajor = nodeMajor c, match = m\<rparr>"

text \<open>
  \<^verbatim>\<open>
  const exact = candidates.filter((r) => r.nodeMajor === nodeMajor);
  if (exact.length > 0) {
    exact.sort(...);
    return { ...exact[0], match: "exact" };
  }
  const lower = candidates.filter((r) => r.nodeMajor < nodeMajor);
  if (lower.length > 0) {
    lower.sort(...);
    return { ...lower[0], match: "lower" };
  }
  candidates.sort(...);
  return candidates[0] ? { ...candidates[0], match: "any" } : null;
  \<close>
\<close>

definition exact_pool :: "release list \<Rightarrow> int option \<Rightarrow> candidate list" where
  "exact_pool releases localMajor = filter (\<lambda>r. nodeMajor r = localMajor) (candidates releases)"

definition lower_pool :: "release list \<Rightarrow> int option \<Rightarrow> candidate list" where
  "lower_pool releases localMajor =
     filter (\<lambda>r. js_less (nodeMajor r) localMajor) (candidates releases)"

definition pickElectronVersion :: "release list \<Rightarrow> int option \<Rightarrow> picked option" where
  "pickElectronVersion releases localMajor =
     (let exact = exact_pool releases localMajor in
      if exact \<noteq> [] then Some (tagged (js_sort newest_first exact ! 0) Exact)
      else let lower = lower_pool releases localMajor in
      if lower \<noteq> [] then Some (tagged (js_sort newest_first lower ! 0) Lower)
      else (case js_sort newest_first (candidates releases) of
              [] \<Rightarrow> None
            | c # _ \<Rightarrow> Some (tagged c Any)))"

subsection \<open>The filesystem\<close>

text \<open>
  The disk is one tree. A directory lists its entries by name, in the order \<^verbatim>\<open>readdir\<close>
  returns them; \<open>Special\<close> stands for every entry that is neither a regular file nor a
  directory (a symbolic link, a socket, a FIFO, a device), for which both
  \<^verbatim>\<open>Dirent.isFile()\<close> and \<^verbatim>\<open>Dirent.isDirectory()\<close> are false. A path is the list of its
  components from the root, as \<^verbatim>\<open>path.resolve\<close> leaves it; \<^verbatim>\<open>path.join(p, name)\<close> with
  an entry name appends one component. Symbolic links are not followed: a path does not
  continue below a \<open>Special\<close> entry.
\<close>

type_synonym path = "string list"

datatype tree = File string | Dir "(string \<times> tree) list" | Special

datatype kind = KFile | KDir | KOther

datatype error = ENOENT | ENOTDIR | EEXIST | EISDIR | EBUSY | EUNMODELLED | TemplateNotFound path

text \<open>How a call ends: it returns, it throws, or the model's fuel ran out before it did
  either.\<close>

datatype status = Ok | Threw error | OutOfFuel

fun lookup :: "tree \<Rightarrow> path \<Rightarrow> tree option" where
  "lookup n [] = Some n"
| "lookup (Dir es) (x # p) = (case map_of es x of None \<Rightarrow> None | Some c \<Rightarrow> lookup c p)"
| "lookup _ (x # p) = None"

text \<open>\<open>put fs p t\<close> makes \<open>t\<close> the entry at \<open>p\<close>, creating the directories above it that are
  missing; a new name goes to the end of its directory's listing.\<close>

fun put :: "tree \<Rightarrow> path \<Rightarrow> tree \<Rightarrow> tree" where
  "put n [] t = t"
| "put (Dir es) (x # p) t =
     Dir (AList.update x (put (case map_of es x of None \<Rightarrow> Dir [] | Some c \<Rightarrow> c) p t) es)"
| "put n (x # p) t = n"

text \<open>No proper prefix of the path is occupied by something that is not a directory.\<close>

fun clear_way :: "tree \<Rightarrow> path \<Rightarrow> bool" where
  "clear_way n [] = True"
| "clear_way (Dir es) (x # p) = (case map_of es x of None \<Rightarrow> True | Some c \<Rightarrow> clear_way c p)"
| "clear_way _ (x # p) = False"

fun remove :: "tree \<Rightarrow> path \<Rightarrow> tree" where
  "remove n [] = n"
| "remove (Dir es) [x] = Dir (AList.delete x es)"
| "remove (Dir es) (x # p) =
     (case map_of es x of None \<Rightarrow> Dir es | Some c \<Rightarrow> Dir (AList.update x (remove c p) es))"
| "remove n (x # p) = n"

definition kind_of :: "tree \<Rightarrow> kind" where
  "kind_of t = (case t of File _ \<Rightarrow> KFile | Dir _ \<Rightarrow> KDir | Special \<Rightarrow> KOther)"

text \<open>\<^verbatim>\<open>fs.existsSync(p)\<close>\<close>

definition existsSync :: "tree \<Rightarrow> path \<Rightarrow> bool" where
  "existsSync fs p = (lookup fs p \<noteq> None)"

text \<open>\<^verbatim>\<open>fs.readdirSync(p, { withFileTypes: true })\<close>: the names with their kinds; it throws
  on a path that is missing or not a directory.\<close>

definition readdirSync :: "tree \<Rightarrow> path \<Rightarrow> error + (string \<times> kind) list" where
  "readdirSync fs p =
     (case lookup fs p of
        None \<Rightarrow> Inl ENOENT
      | Some (Dir es) \<Rightarrow> Inr (map (\<lambda>(n, c). (n, kind_of c)) es)
      | Some _ \<Rightarrow> Inl ENOTDIR)"

text \<open>
  \<^verbatim>\<open>
  function ensureDir(dir) {
    fs.mkdirSync(dir, { recursive: true });
  }
  \<close>
  An existing directory is left alone, missing directories are created along the path,
  and the call throws when the path or one of its prefixes is occupied by something else.
\<close>

definition ensureDir :: "tree \<Rightarrow> path \<Rightarrow> error + tree" where
  "ensureDir fs dir =
     (if \<not> clear_way fs dir then Inl ENOTDIR
      else (case lookup fs dir of
              None \<Rightarrow> Inr (put fs dir (Dir []))
            | Some (Dir _) \<Rightarrow> Inr fs
            | Some _ \<Rightarrow> Inl EEXIST))"

text \<open>\<^verbatim>\<open>path.dirname(p)\<close>\<close>

definition dirname :: "path \<Rightarrow> path" where
  "dirname p = butlast p"

text \<open>
  \<^verbatim>\<open>fs.copyFileSync(from, to)\<close>: the source is a regular file, the directory of the
  destination exists, and a regular file at the destination is overwritten. What happens
  with a \<open>Special\<close> entry on either side depends on the entry and is not modelled
  (\<open>EUNMODELLED\<close>).
\<close>

definition copyFileSync :: "tree \<Rightarrow> path \<Rightarrow> path \<Rightarrow> error + tree" where
  "copyFileSync fs from to =
     (case lookup fs from of
        None \<Rightarrow> Inl ENOENT
      | Some (Dir _) \<Rightarrow> Inl EISDIR
      | Some Special \<Rightarrow> Inl EUNMODELLED
      | Some (File c) \<Rightarrow>
          (if to = [] then Inl EISDIR
           else (case lookup fs (dirname to) of
                   None \<Rightarrow> Inl ENOENT
                 | Some (Dir _) \<Rightarrow>
                     (case lookup fs to of
                        Some (Dir _) \<Rightarrow> Inl EISDIR
                      | Some Special \<Rightarrow> Inl EUNMODELLED
                      | _ \<Rightarrow> Inr (put fs to (File c)))
                 | Some _ \<Rightarrow> Inl ENOTDIR)))"

text \<open>
  \<^verbatim>\<open>fs.rmSync(p, { recursive: true, force: true })\<close>: the entry and everything below it
  goes; a missing path is no error. Removing the root itself is not modelled: the call
  throws and leaves the disk as it is.
\<close>

definition rmSync :: "tree \<Rightarrow> path \<Rightarrow> status \<times> tree" where
  "rmSync fs p = (if p = [] then (Threw EBUSY, fs) else (Ok, remove fs p))"

subsection \<open>ScaffoldEngine: the recursive copy\<close>

text \<open>\<^verbatim>\<open>const COPY_IGNORE = new Set(["dist", "logs", ".git"]);\<close>\<close>

definition COPY_IGNORE :: "string set" where
  "COPY_IGNORE = {''dist'', ''logs'', ''.git''}"

text \<open>
  \<^verbatim>\<open>
  function copyDir(src, dest, isRoot) {
    if (!fs.existsSync(src)) {
      throw new Error(`Template directory not found: ${src}`);
    }
    ensureDir(dest);
    const entries = fs.readdirSync(src, { withFileTypes: true });
    for (const entry of entries) {
      if (isRoot && COPY_IGNORE.has(entry.name)) continue;
      const from = path.join(src, entry.name);
      const to = path.join(dest, entry.name);
      if (entry.isDirectory()) {
        copyDir(from, to, false);
      } else if (entry.isFile()) {
        ensureDir(path.dirname(to));
        fs.copyFileSync(from, to);
      }
    }
  }
  \<close>
  The loop runs over the listing read before it started, and every step works on the disk
  as the steps before left it. The recursion follows the disk, which the copy itself
  changes, so it need not end (a destination inside the source is copied into itself
  again and again): the model counts the depth of the recursion down from \<open>fuel\<close>.
  When a call throws, the disk stays as it was at that moment.
\<close>

primrec copy_loop ::
  "(tree \<Rightarrow> path \<Rightarrow> path \<Rightarrow> status \<times> tree) \<Rightarrow> bool \<Rightarrow> (string \<times> kind) list
     \<Rightarrow> tree \<Rightarrow> path \<Rightarrow> path \<Rightarrow> status \<times> tree" where
  "copy_loop recur isRoot [] fs src dest = (Ok, fs)"
| "copy_loop recur isRoot (entry # rest) fs src dest =
     (if isRoot \<and> fst entry \<in> COPY_IGNORE then copy_loop recur isRoot rest fs src dest
      else let from = src @ [fst entry]; to = dest @ [fst entry] in
        if snd entry = KDir then
          (case recur fs from to of
             (Ok, fs') \<Rightarrow> copy_loop recur isRoot rest fs' src dest
           | failed \<Rightarrow> failed)
        else if snd entry = KFile then
          (case ensureDir fs (dirname to) of
             Inl e \<Rightarrow> (Threw e, fs)
           | Inr fs1 \<Rightarrow>
               (case copyFileSync fs1 from to of
                  Inl e \<Rightarrow> (Threw e, fs1)
                | Inr fs2 \<Rightarrow> copy_loop recur isRoot rest fs2 src dest))
        else copy_loop recur isRoot rest fs src dest)"

fun copyDir :: "nat \<Rightarrow> tree \<Rightarrow> path \<Rightarrow> path \<Rightarrow> bool \<Rightarrow> status \<times> tree" where
  "copyDir 0 fs src dest isRoot = (OutOfFuel, fs)"
| "copyDir (Suc fuel) fs src dest isRoot =
     (if \<not> existsSync fs src then (Threw (TemplateNotFound src), fs)
      else (case ensureDir fs dest of
              Inl e \<Rightarrow> (Threw e, fs)
            | Inr fs1 \<Rightarrow>
                (case readdirSync fs1 src of
                   Inl e \<Rightarrow> (Threw e, fs1)
                 | Inr entries \<Rightarrow>
                     copy_loop (\<lambda>fs' from to. copyDir fuel fs' from to False)
                       isRoot entries fs1 src dest)))"

text \<open>
  What the specification expects at the destination. Below the root a directory is
  reproduced entry by entry, whatever the names, without its \<open>Special\<close> entries; at the
  root the names of \<open>COPY_IGNORE\<close> are left out as well.
\<close>

fun copy_tree :: "tree \<Rightarrow> tree" where
  "copy_tree (Dir es) =
     Dir (map (\<lambda>(n, c). (n, copy_tree c)) (filter (\<lambda>(n, c). c \<noteq> Special) es))"
| "copy_tree t = t"

definition copied :: "bool \<Rightarrow> (string \<times> tree) list \<Rightarrow> (string \<times> tree) list" where
  "copied isRoot es =
     map (\<lambda>(n, c). (n, copy_tree c))
       (filter (\<lambda>(n, c). \<not> (isRoot \<and> n \<in> COPY_IGNORE) \<and> c \<noteq> Special) es)"

text \<open>A tree of regular files and directories only.\<close>

fun regular :: "tree \<Rightarrow> bool" where
  "regular (File c) = True"
| "regular (Dir es) = (\<forall>(n, c) \<in> set es. regular c)"
| "regular Special = False"

text \<open>No directory lists a name twice.\<close>

fun wf_tree :: "tree \<Rightarrow> bool" where
  "wf_tree (Dir es) = (distinct (map fst es) \<and> (\<forall>(n, c) \<in> set es. wf_tree c))"
| "wf_tree _ = True"

text \<open>The depth of a tree bounds the depth of the recursion that copies it.\<close>

fun height :: "tree \<Rightarrow> nat" where
  "height (Dir es) = Suc (fold max (map (\<lambda>(n, c). height c) es) 0)"
| "height _ = 0"

text \<open>The destination of a copy is free: it is missing and can be created, or it is an
  empty directory.\<close>

definition fresh :: "tree \<Rightarrow> path \<Rightarrow> bool" where
  "fresh fs dest =
     ((lookup fs dest = None \<and> clear_way fs dest) \<or> lookup fs dest = Some (Dir []))"

subsection \<open>The prompts\<close>

text \<open>\<^verbatim>\<open>s.trim()\<close> and \<^verbatim>\<open>s.toLowerCase()\<close>: the capital letters below 256 are \<open>A\<close> to \<open>Z\<close>
  and the Latin-1 letters 192 to 222 without the multiplication sign 215.\<close>

definition trim :: "string \<Rightarrow> string" where
  "trim s = rev (dropWhile is_space (rev (dropWhile is_space s)))"

definition lower_char :: "char \<Rightarrow> char" where
  "lower_char c =
     (let n = (of_char c :: nat) in
      if (65 \<le> n \<and> n \<le> 90) \<or> (192 \<le> n \<and> n \<le> 222 \<and> n \<noteq> 215) then char_of (n + 32)
      else c)"

definition toLowerCase :: "string \<Rightarrow> string" where
  "toLowerCase s = map lower_char s"

text \<open>
  \<^verbatim>\<open>
  function promptLine(rl, question, defaultValue) {
    return new Promise((resolve) => {
      rl.question(question, (answer) => {
        const value = answer.trim();
        resolve(value === "" ? defaultValue : value);
      });
    });
  }

  async function confirm(rl, question, defaultYes) {
    const suffix = defaultYes ? " (Y/n): " : " (y/N): ";
    const answer = await promptLine(rl, question + suffix, "");
    if (!answer) return !!defaultYes;
    const normalized = answer.toLowerCase();
    return normalized === "y" || normalized === "yes";
  }
  \<close>
  The model takes the line that the user types at the prompt as an argument: every prompt
  that is reached is answered.
\<close>

definition promptLine :: "string \<Rightarrow> string \<Rightarrow> string" where
  "promptLine answer defaultValue =
     (let v = trim answer in if v = [] then defaultValue else v)"

definition confirm :: "string \<Rightarrow> bool \<Rightarrow> bool" where
  "confirm line defaultYes =
     (let answer = promptLine line [] in
      if answer = [] then defaultYes
      else let normalized = toLowerCase answer in normalized = ''y'' \<or> normalized = ''yes'')"

subsection \<open>\<^verbatim>\<open>main\<close>: clearing the target and reusing the cached scaffold\<close>

text \<open>
  What a run reads from its environment before it generates anything: the flags of the
  argument vector, the output of \<^verbatim>\<open>node -v\<close> and \<^verbatim>\<open>npm -v\<close> (\<^term>\<open>None\<close> when the command
  fails), \<^verbatim>\<open>path.resolve(process.cwd(), \<cdot>)\<close>, and the lines typed at the three prompts.
\<close>

record env =
  showHelp :: bool
  forceRebuild :: bool
  nodeVersion :: "string option"
  npmVersion :: "string option"
  resolve :: "string \<Rightarrow> path"
  targetAnswer :: string
  overwriteAnswer :: string
  reuseAnswer :: string

definition DEFAULT_TARGET :: string where
  "DEFAULT_TARGET = ''init_src''"

definition TEMPLATE_DIR :: string where
  "TEMPLATE_DIR = DEFAULT_TARGET"

text \<open>
  Where a run ends: \<^verbatim>\<open>process.exit(code)\<close>; the two \<^verbatim>\<open>return\<close>s of the reuse path (the
  scaffold used in place, the scaffold copied); \<open>Generate\<close> when the run goes on to render
  a fresh scaffold (the rest of \<^verbatim>\<open>main\<close>, which removes nothing); \<open>Finished\<close> at the end
  of \<^verbatim>\<open>main\<close>; \<open>Diverged\<close> when the copy did not end within the fuel.
\<close>

datatype outcome = Exit nat | InPlace | Copied | Generate | Finished | Diverged

datatype event = RmSync path | CopyDir path path

record run =
  outcome :: outcome
  events :: "event list"
  disk :: tree

text \<open>
  \<^verbatim>\<open>
  function isEmptyDir(dir) {
    if (!fs.existsSync(dir)) return true;
    const entries = fs.readdirSync(dir);
    return entries.length === 0;
  }
  \<close>
\<close>

definition isEmptyDir :: "tree \<Rightarrow> path \<Rightarrow> error + bool" where
  "isEmptyDir fs dir =
     (if \<not> existsSync fs dir then Inr True
      else (case readdirSync fs dir of
              Inl e \<Rightarrow> Inl e
            | Inr entries \<Rightarrow> Inr (length entries = 0)))"

text \<open>
  \<^verbatim>\<open>
  if (forceRebuild) {
    targetDir = path.resolve(process.cwd(), TEMPLATE_DIR);
  } else {
    const targetInput = await promptLine(rl, `Target directory ...`, DEFAULT_TARGET);
    targetDir = path.resolve(process.cwd(), targetInput);
  }
  \<close>
\<close>

definition targetDir :: "env \<Rightarrow> path" where
  "targetDir e =
     (if forceRebuild e then resolve e TEMPLATE_DIR
      else resolve e (promptLine (targetAnswer e) DEFAULT_TARGET))"

text \<open>
  \<^verbatim>\<open>
  if (fs.existsSync(targetDir) && !isEmptyDir(targetDir)) {
    const overwrite = forceRebuild || await confirm(rl, `...Overwrite?`, false);
    if (!overwrite) {
      rl.close();
      process.exit(1);
    }
    console.log(`Clearing: ${targetDir}`);
    fs.rmSync(targetDir, { recursive: true, force: true });
  }
  \<close>
  An exception that nothing catches reaches \<^verbatim>\<open>main().catch\<close>, which exits with code 1.
  The result is the exit code when the run ends here, the calls made and the disk.
\<close>

definition clear_target :: "env \<Rightarrow> tree \<Rightarrow> nat option \<times> event list \<times> tree" where
  "clear_target e fs =
     (if existsSync fs (targetDir e) then
        (case isEmptyDir fs (targetDir e) of
           Inl err \<Rightarrow> (Some 1, [], fs)
         | Inr True \<Rightarrow> (None, [], fs)
         | Inr False \<Rightarrow>
             (let overwrite = (forceRebuild e \<or> confirm (overwriteAnswer e) False) in
              if \<not> overwrite then (Some 1, [], fs)
              else (case rmSync fs (targetDir e) of
                      (Ok, fs') \<Rightarrow> (None, [RmSync (targetDir e)], fs')
                    | (_, fs') \<Rightarrow> (Some 1, [RmSync (targetDir e)], fs'))))
      else (None, [], fs))"

text \<open>
  \<^verbatim>\<open>
  if (useLocalTemplate) {
    const templateDir = path.resolve(process.cwd(), TEMPLATE_DIR);
    if (!fs.existsSync(templateDir) || isEmptyDir(templateDir)) {
      console.error(`Template directory is missing or empty: ${templateDir}`);
      rl.close();
      process.exit(1);
    }
    if (path.resolve(templateDir) === path.resolve(targetDir)) {
      console.log(`Using cached scaffold in place: ${templateDir}`);
      rl.close();
      return;
    }
    try {
      copyDir(templateDir, targetDir, true);
    } catch (err) {
      console.error(`Failed to copy template: ${err.message}`);
      rl.close();
      process.exit(1);
    }
    console.log(`Scaffold copied from ${templateDir} to ${targetDir}`);
    rl.close();
    return;
  }
  \<close>
  \<^verbatim>\<open>path.resolve\<close> leaves a resolved path as it is, so the two paths are compared as they
  are.
\<close>

definition reuse_template :: "nat \<Rightarrow> env \<Rightarrow> event list \<Rightarrow> tree \<Rightarrow> run" where
  "reuse_template fuel e evs fs =
     (let templateDir = resolve e TEMPLATE_DIR in
      if \<not> existsSync fs templateDir then \<lparr>outcome = Exit 1, events = evs, disk = fs\<rparr>
      else (case isEmptyDir fs templateDir of
              Inl err \<Rightarrow> \<lparr>outcome = Exit 1, events = evs, disk = fs\<rparr>
            | Inr True \<Rightarrow> \<lparr>outcome = Exit 1, events = evs, disk = fs\<rparr>
            | Inr False \<Rightarrow>
                if templateDir = targetDir e then \<lparr>outcome = InPlace, events = evs, disk = fs\<rparr>
                else (case copyDir fuel fs templateDir (targetDir e) True of
                        (Ok, fs') \<Rightarrow>
                          \<lparr>outcome = Copied,
                           events = evs @ [CopyDir templateDir (targetDir e)], disk = fs'\<rparr>
                      | (Threw err, fs') \<Rightarrow>
                          \<lparr>outcome = Exit 1,
                           events = evs @ [CopyDir templateDir (targetDir e)], disk = fs'\<rparr>
                      | (OutOfFuel, fs') \<Rightarrow>
                          \<lparr>outcome = Diverged,
                           events = evs @ [CopyDir templateDir (targetDir e)], disk = fs'\<rparr>)))"

text \<open>
  \<^verbatim>\<open>main\<close> up to the end of the reuse path: the two prerequisite checks
  (\<^verbatim>\<open>if (!nodeVersion) ... process.exit(1)\<close>, the same for \<^verbatim>\<open>npmVersion\<close>), the target
  directory, the clearing, and the question \<^verbatim>\<open>Use cached scaffold from init_src?\<close>,
  which is asked only without \<^verbatim>\<open>--force\<close>.
\<close>

definition falsy :: "string option \<Rightarrow> bool" where
  "falsy v = (\<not> truthy v)"

definition main :: "nat \<Rightarrow> env \<Rightarrow> tree \<Rightarrow> run" where
  "main fuel e fs =
     (if falsy (nodeVersion e) then \<lparr>outcome = Exit 1, events = [], disk = fs\<rparr>
      else if falsy (npmVersion e) then \<lparr>outcome = Exit 1, events = [], disk = fs\<rparr>
      else (case clear_target e fs of
              (Some code, evs, fs1) \<Rightarrow> \<lparr>outcome = Exit code, events = evs, disk = fs1\<rparr>
            | (None, evs, fs1) \<Rightarrow>
                if \<not> forceRebuild e \<and> confirm (reuseAnswer e) False
                then reuse_template fuel e evs fs1
                else \<lparr>outcome = Generate, events = evs, disk = fs1\<rparr>))"

text \<open>The script: \<^verbatim>\<open>if (showHelp) { ...; process.exit(0); }\<close>, and \<^verbatim>\<open>main()\<close> at its end.\<close>

definition init_js :: "nat \<Rightarrow> env \<Rightarrow> tree \<Rightarrow> run" where
  "init_js fuel e fs =
     (if showHelp e then \<lparr>outcome = Exit 0, events = [], disk = fs\<rparr> else main fuel e fs)"

text \<open>The target directory exists and is not empty.\<close>

definition nonempty_dir :: "tree \<Rightarrow> path \<Rightarrow> bool" where
  "nonempty_dir fs p = (case lookup fs p of Some (Dir (_ # _)) \<Rightarrow> True | _ \<Rightarrow> False)"

text \<open>The run gets as far as the target directory: no \<^verbatim>\<open>--help\<close>, and both \<^verbatim>\<open>node\<close> and
  \<^verbatim>\<open>npm\<close> answered.\<close>

definition reaches_target :: "env \<Rightarrow> bool" where
  "reaches_target e = (\<not> showHelp e \<and> truthy (nodeVersion e) \<and> truthy (npmVersion e))"

subsection \<open>InstallRunner\<close>

text \<open>
  \<^verbatim>\<open>spawnSync\<close> is the boundary to the package manager: given the command, its arguments,
  the working directory and the environment it changes the world outside and returns the
  exit status, \<^term>\<open>None\<close> when there is none (the process was killed by a signal or could
  not be started).
\<close>

record spawn_call =
  command :: string
  args :: "string list"
  cwd :: path
  penv :: "(string \<times> string) list"

record 'w proc =
  world :: 'w
  spawned :: "spawn_call list"

text \<open>
  \<^verbatim>\<open>
  function runNpmInstall(cwd, env, label) {
    const installArgs = ["install"];
    if (!enableAudit) installArgs.push("--no-audit");
    let install;
    if (isWindows) {
      const cmdExe = process.env.ComSpec || "cmd.exe";
      install = spawnSync(cmdExe, ["/c", "npm", ...installArgs], { cwd, stdio: "inherit", env, windowsHide: true });
    } else {
      install = spawnSync(npmCommand, installArgs, { cwd, stdio: "inherit", env });
    }
    if (install.status !== 0) {
      ...
      process.exit(1);
    }
  }
  \<close>
  The result is the exit code when the process exits here.
\<close>

record platform =
  isWindows :: bool
  enableAudit :: bool
  comSpec :: "string option"

definition npmCommand :: "platform \<Rightarrow> string" where
  "npmCommand pf = (if isWindows pf then ''npm.cmd'' else ''npm'')"

definition install_call :: "platform \<Rightarrow> path \<Rightarrow> (string \<times> string) list \<Rightarrow> spawn_call" where
  "install_call pf dir env =
     (let installArgs = [''install''] @ (if \<not> enableAudit pf then [''--no-audit''] else [])
      in if isWindows pf
         then \<lparr>command = or_empty (js_or (comSpec pf) (Some ''cmd.exe'')),
               args = [''/c'', ''npm''] @ installArgs, cwd = dir, penv = env\<rparr>
         else \<lparr>command = npmCommand pf, args = installArgs, cwd = dir, penv = env\<rparr>)"

definition runNpmInstall ::
  "(spawn_call \<Rightarrow> 'w \<Rightarrow> int option \<times> 'w) \<Rightarrow> platform \<Rightarrow> path \<Rightarrow> (string \<times> string) list
     \<Rightarrow> 'w proc \<Rightarrow> nat option \<times> 'w proc" where
  "runNpmInstall spawnSync pf dir env st =
     (let call = install_call pf dir env;
          install = spawnSync call (world st);
          st' = \<lparr>world = snd install, spawned = spawned st @ [call]\<rparr>
      in if fst install \<noteq> Some 0 then (Some 1, st') else (None, st'))"

text \<open>
  The end of \<^verbatim>\<open>main\<close>:
  \<^verbatim>\<open>
  runNpmInstall(targetDir, env, "root");
  runNpmInstall(path.join(targetDir, "src", "frontend"), env, "frontend");
  console.log(`Scaffold created at: ${targetDir}`);
  console.log("Done.");
  \<close>
\<close>

definition install_steps ::
  "(spawn_call \<Rightarrow> 'w \<Rightarrow> int option \<times> 'w) \<Rightarrow> platform \<Rightarrow> path \<Rightarrow> (string \<times> string) list
     \<Rightarrow> 'w proc \<Rightarrow> outcome \<times> 'w proc" where
  "install_steps spawnSync pf target env st =
     (case runNpmInstall spawnSync pf target env st of
        (Some code, st1) \<Rightarrow> (Exit code, st1)
      | (None, st1) \<Rightarrow>
          (case runNpmInstall spawnSync pf (target @ [''src'', ''frontend'']) env st1 of
             (Some code, st2) \<Rightarrow> (Exit code, st2)
           | (None, st2) \<Rightarrow> (Finished, st2)))"

subsection \<open>Example inputs\<close>

text \<open>A working directory with the cache \<^verbatim>\<open>init_src\<close> of the specification's example and
  an empty target \<^verbatim>\<open>out\<close>.\<close>

definition cache_example :: tree where
  "cache_example =
     Dir [(''work'',
       Dir [(''init_src'',
              Dir [(''a.txt'', File ''hello''),
                   (''dist'', Dir [(''bundle.js'', File ''b'')]),
                   (''logs'', Dir [(''run.log'', File ''l'')]),
                   (''.git'', Dir [(''HEAD'', File ''ref'')])]),
            (''out'', Dir [])])]"

text \<open>A cache after \<^verbatim>\<open>npm install\<close>: a symbolic link at its root and one under
  \<^verbatim>\<open>node_modules/.bin\<close>.\<close>

definition installed_example :: tree where
  "installed_example =
     Dir [(''work'',
       Dir [(''init_src'',
              Dir [(''package.json'', File ''{}''),
                   (''latest'', Special),
                   (''node_modules'',
                      Dir [(''.bin'', Dir [(''vite'', Special)]),
                           (''vite'', Dir [(''index.js'', File ''v'')])])])])]"

text \<open>A cache with directories named \<^verbatim>\<open>dist\<close> and \<^verbatim>\<open>logs\<close> below its root.\<close>

definition nested_example :: tree where
  "nested_example =
     Dir [(''work'',
       Dir [(''init_src'',
              Dir [(''a.txt'', File ''hello''),
                   (''dist'', Dir [(''bundle.js'', File ''b'')]),
                   (''src'', Dir [(''dist'', Dir [(''y.js'', File ''y'')]), (''logs'', Dir [])])])])]"

text \<open>Three runs in a working directory whose \<^verbatim>\<open>init_src\<close> holds one file: with
  \<^verbatim>\<open>--force\<close> while \<^verbatim>\<open>npm\<close> is missing; with the default target, the overwrite confirmed
  and the cached scaffold requested; and the same with the overwrite declined.\<close>

definition npm_missing_env :: env where
  "npm_missing_env =
     \<lparr>showHelp = False, forceRebuild = True, nodeVersion = Some ''20.11.0'', npmVersion = None,
      resolve = (\<lambda>s. [''work'', s]), targetAnswer = [], overwriteAnswer = [],
      reuseAnswer = []\<rparr>"

definition in_place_env :: env where
  "in_place_env =
     \<lparr>showHelp = False, forceRebuild = False, nodeVersion = Some ''20.11.0'',
      npmVersion = Some ''10.2.4'', resolve = (\<lambda>s. [''work'', s]), targetAnswer = [],
      overwriteAnswer = ''y'', reuseAnswer = ''y''\<rparr>"

definition declined_env :: env where
  "declined_env =
     \<lparr>showHelp = False, forceRebuild = False, nodeVersion = Some ''20.11.0'',
      npmVersion = Some ''10.2.4'', resolve = (\<lambda>s. [''work'', s]), targetAnswer = [],
      overwriteAnswer = ''n'', reuseAnswer = ''y''\<rparr>"

definition cached_disk :: tree where
  "cached_disk = Dir [(''work'', Dir [(''init_src'', Dir [(''a.txt'', File ''hello'')])])]"

text \<open>Two package managers, as \<^verbatim>\<open>spawnSync\<close> sees them: one fails in the root directory,
  the other is killed in the frontend directory. The world counts the processes run.\<close>

definition posix :: platform where
  "posix = \<lparr>isWindows = False, enableAudit = False, comSpec = None\<rparr>"

definition root_fails :: "spawn_call \<Rightarrow> nat \<Rightarrow> int option \<times> nat" where
  "root_fails call w = (if cwd call = [''work'', ''out''] then Some 1 else Some 0, Suc w)"

definition frontend_fails :: "spawn_call \<Rightarrow> nat \<Rightarrow> int option \<times> nat" where
  "frontend_fails call w = (if cwd call = [''work'', ''out''] then Some 0 else None, Suc w)"

section \<open>Properties\<close>

subsection \<open>Parsing\<close>




















subsection \<open>Comparison\<close>


lemma compareSemver_pos: "compareSemver a b > 0 \<longleftrightarrow> lex_less b a"
  by (auto simp: compareSemver_def lex_less_def)






subsection \<open>The leading marker\<close>

text \<open>
  Claim C7, as amended. The one marker that is stripped is a leading \<open>v\<close>: for every
  \<open>s\<close> that does not itself start with \<open>v\<close>, \<open>v\<close> followed by \<open>s\<close> parses as \<open>s\<close> does, and a
  string that starts with any other character is left as it is by \<^verbatim>\<open>normalizeVersion\<close>.
\<close>

theorem parseSemver_strips_v:
  "(\<not> startsWith_v s \<longrightarrow> parseSemver (CHR ''v'' # s) = parseSemver s)
   \<and> (c \<noteq> CHR ''v'' \<longrightarrow> normalizeVersion (c # s) = c # s)"
  by (cases s) (auto simp: parseSemver_def normalizeVersion_def startsWith_v_def slice1_def)

theorem parseSemver_strips_v_witness:
  "\<not> startsWith_v ''5.0.0'' \<and> parseSemver ''v5.0.0'' = parseSemver ''5.0.0''
   \<and> parseSemver ''v5.0.0'' = \<lparr>major = 5, minor = 0, patch = 0\<rparr>
   \<and> CHR ''='' \<noteq> CHR ''v'' \<and> normalizeVersion ''=5.0.0'' = ''=5.0.0''"
  using parseSemver_strips_v[of "''5.0.0''" "CHR ''=''"]
  by code_simp

text \<open>
  Claim C7 as stated fails for the marker \<open>=\<close>: \<open>=5.0.0\<close> does not parse as \<open>5.0.0\<close> does
  (its first component is not a number, so it parses to \<open>{0,0,0}\<close>).
\<close>

theorem parseSemver_marker_counterexample:
  "\<not> is_digit CHR ''='' \<and> parseSemver (CHR ''='' # ''5.0.0'') \<noteq> parseSemver ''5.0.0''"
  by code_simp

subsection \<open>The release matcher\<close>


lemma set_insort_cmp: "set (insort_cmp cmp x ys) = insert x (set ys)"
  by (induction ys) auto

lemma set_js_sort: "set (js_sort cmp xs) = set xs"
  by (induction xs) (auto simp: set_insort_cmp)

lemma insort_cmp_head:
  "insort_cmp cmp x ys ! 0 = (case ys of [] \<Rightarrow> x | y # _ \<Rightarrow> if cmp x y \<le> 0 then x else y)"
  by (cases ys) auto

lemma js_sort_head:
  assumes total: "\<And>a b. cmp a b \<le> 0 \<or> cmp b a \<le> 0"
    and trans: "\<And>a b c. cmp a b \<le> 0 \<Longrightarrow> cmp b c \<le> 0 \<Longrightarrow> cmp a c \<le> 0"
    and "xs \<noteq> []"
  shows "js_sort cmp xs ! 0 \<in> set xs \<and> (\<forall>y\<in>set xs. cmp (js_sort cmp xs ! 0) y \<le> 0)"
  using assms(3)
proof (induction xs)
  case Nil
  then show ?case by simp
next
  case (Cons x xs)
  have refl: "cmp x x \<le> 0" using total[of x x] by simp
  show ?case
  proof (cases "js_sort cmp xs")
    case Nil
    then have "xs = []" using set_js_sort[of cmp xs] by simp
    then show ?thesis using refl by simp
  next
    case (Cons h t)
    then have ne: "xs \<noteq> []" by auto
    from Cons.IH[OF ne] Cons have h: "h \<in> set xs" "\<forall>y\<in>set xs. cmp h y \<le> 0" by simp_all
    show ?thesis
    proof (cases "cmp x h \<le> 0")
      case True
      then have "\<forall>y\<in>set xs. cmp x y \<le> 0" using h(2) trans by blast
      with True refl Cons show ?thesis by simp
    next
      case False
      then have "cmp h x \<le> 0" using total[of x h] by simp
      with False h Cons show ?thesis by simp
    qed
  qed
qed

lemma compareSemver_le: "compareSemver a b \<le> 0 \<longleftrightarrow> \<not> lex_less b a"
  using compareSemver_pos[of a b] by linarith

lemma newest_first_total: "newest_first a b \<le> 0 \<or> newest_first b a \<le> 0"
  by (auto simp: newest_first_def compareSemver_le lex_less_def)

lemma newest_first_trans:
  "newest_first a b \<le> 0 \<Longrightarrow> newest_first b c \<le> 0 \<Longrightarrow> newest_first a c \<le> 0"
  by (auto simp: newest_first_def compareSemver_le lex_less_def)

lemma newest_head:
  assumes "xs \<noteq> []"
  shows "js_sort newest_first xs ! 0 \<in> set xs
    \<and> (\<forall>d\<in>set xs. compareSemver (parseSemver (version d))
                       (parseSemver (version (js_sort newest_first xs ! 0))) \<le> 0)"
  using js_sort_head[of newest_first xs, OF newest_first_total newest_first_trans assms]
  by (simp add: newest_first_def)



lemma candidates_nodeMajor: "c \<in> set (candidates releases) \<Longrightarrow> nodeMajor c \<noteq> None"
  by (auto simp: candidates_def)

lemma exact_pool_null: "exact_pool releases None = []"
  using candidates_nodeMajor by (auto simp: exact_pool_def filter_empty_conv)

lemma pickElectronVersion_no_candidates:
  "candidates releases = [] \<Longrightarrow> pickElectronVersion releases localMajor = None"
  by (simp add: pickElectronVersion_def exact_pool_def lower_pool_def)

lemma pickElectronVersion_empty_feed: "pickElectronVersion [] localMajor = None"
  by (simp add: pickElectronVersion_no_candidates candidates_def)

lemma lower_pool_null:
  "lower_pool releases None = filter (\<lambda>r. to_number (nodeMajor r) < 0) (candidates releases)"
  by (simp add: lower_pool_def js_less_def to_number_def)

lemma pickElectronVersion_null_nonneg:
  assumes "\<forall>c\<in>set (candidates releases). 0 \<le> to_number (nodeMajor c)"
    and "candidates releases \<noteq> []"
  shows "lower_pool releases None = []
    \<and> (\<exists>c. pickElectronVersion releases None = Some (tagged c Any)
           \<and> c \<in> set (candidates releases)
           \<and> (\<forall>d\<in>set (candidates releases).
                 compareSemver (parseSemver (version d)) (parseSemver (version c)) \<le> 0))"
proof -
  have low: "lower_pool releases None = []"
    using assms(1) by (auto simp: lower_pool_null filter_empty_conv)
  obtain h t where ht: "js_sort newest_first (candidates releases) = h # t"
    using assms(2) set_js_sort[of newest_first "candidates releases"]
    by (cases "js_sort newest_first (candidates releases)") auto
  then have h0: "js_sort newest_first (candidates releases) ! 0 = h" by simp
  have "pickElectronVersion releases None = Some (tagged h Any)"
    using low ht by (simp add: pickElectronVersion_def exact_pool_null)
  with low newest_head[OF assms(2)] h0 show ?thesis by auto
qed

text \<open>
  Claim C8 at a feed with a negative bundled major. \<^verbatim>\<open>r.nodeMajor < nodeMajor\<close> with
  \<^verbatim>\<open>nodeMajor\<close> equal to \<^verbatim>\<open>null\<close> compares with \<open>0\<close>, so the entry whose \<^verbatim>\<open>node\<close> is
  \<open>-1.0.0\<close> is in the Lower pool and is returned, tagged \<open>Lower\<close>, although \<open>2.0.0\<close> is the
  newest candidate. The lemmas before it show what holds: the Exact pool is empty for
  \<^verbatim>\<open>null\<close>, an empty candidate pool gives the empty result, and when no candidate has a
  negative bundled major the newest candidate is returned, tagged \<open>Any\<close>.
\<close>

theorem pickElectronVersion_null_negative_major:
  "lower_pool
     [\<lparr>r_version = Some ''1.0.0'', r_tag_name = None, r_node = Some ''-1.0.0'', r_deps = None\<rparr>,
      \<lparr>r_version = Some ''2.0.0'', r_tag_name = None, r_node = Some ''20.0.0'', r_deps = None\<rparr>]
     None \<noteq> []
   \<and> pickElectronVersion
     [\<lparr>r_version = Some ''1.0.0'', r_tag_name = None, r_node = Some ''-1.0.0'', r_deps = None\<rparr>,
      \<lparr>r_version = Some ''2.0.0'', r_tag_name = None, r_node = Some ''20.0.0'', r_deps = None\<rparr>]
     None
     = Some \<lparr>version = ''1.0.0'', node = ''-1.0.0'', nodeMajor = Some (- 1), match = Lower\<rparr>"
  by code_simp

subsection \<open>The filesystem\<close>



lemma update_fresh: "k \<notin> fst ` set al \<Longrightarrow> AList.update k v al = al @ [(k, v)]"
  by (induction al) auto

lemma update_same: "map_of al k = Some v \<Longrightarrow> AList.update k v al = al"
  by (induction al) (auto split: if_splits)

lemma lookup_append:
  "lookup fs (p @ q) = (case lookup fs p of None \<Rightarrow> None | Some t \<Rightarrow> lookup t q)"
  by (induction fs p rule: lookup.induct) (auto split: option.splits)

lemma clear_way_empty [simp]: "clear_way (Dir []) p"
  by (cases p) auto

lemma lookup_empty: "q \<noteq> [] \<Longrightarrow> lookup (Dir []) q = None"
  by (cases q) auto

lemma lookup_put_same: "clear_way fs p \<Longrightarrow> lookup (put fs p t) p = Some t"
  by (induction fs p t rule: put.induct) (auto simp: update_conv' split: option.splits)

lemma lookup_clear_way: "lookup fs p = Some t \<Longrightarrow> clear_way fs p"
  by (induction fs p rule: lookup.induct) (auto split: option.splits)

lemma clear_way_child: "lookup fs p = Some (Dir xs) \<Longrightarrow> clear_way fs (p @ [n])"
  by (induction fs p rule: lookup.induct) (auto split: option.splits)

lemma lookup_put_other:
  "\<not> prefix p q \<Longrightarrow> \<not> prefix q p \<Longrightarrow> lookup (put fs p t) q = lookup fs q"
proof (induction fs p t arbitrary: q rule: put.induct)
  case (1 n t)
  then show ?case by simp
next
  case (2 es x p t)
  then obtain y q' where q: "q = y # q'" by (cases q) auto
  show ?case
  proof (cases "y = x")
    case True
    with 2 q have np: "\<not> prefix p q'" "\<not> prefix q' p" by auto
    from np have "q' \<noteq> []" by auto
    then show ?thesis
      using 2(1)[OF np] q True
      by (cases "map_of es x") (simp_all add: update_conv' lookup_empty)
  next
    case False
    then show ?thesis using q by (simp add: update_conv')
  qed
qed simp_all

lemma put_put: "put (put fs p a) p b = put fs p b"
  by (induction fs p a rule: put.induct) (auto simp: update_conv')

lemma put_child:
  "lookup fs p = Some (Dir xs) \<Longrightarrow> put fs (p @ [n]) t = put fs p (Dir (AList.update n t xs))"
  by (induction fs p rule: lookup.induct) (auto split: option.splits)

lemma put_same: "lookup fs p = Some t \<Longrightarrow> put fs p t = fs"
  by (induction fs p rule: lookup.induct) (auto simp: update_same split: option.splits)



lemma fold_max_acc: "(a::nat) \<le> fold max xs a"
  by (induction xs arbitrary: a) (auto intro: order_trans[OF max.cobounded2])

lemma fold_max_ge: "x \<in> set xs \<Longrightarrow> (x::nat) \<le> fold max xs a"
proof (induction xs arbitrary: a)
  case Nil
  then show ?case by simp
next
  case (Cons y ys)
  show ?case
  proof (cases "x = y")
    case True
    have "x \<le> max y a" using True by simp
    also have "\<dots> \<le> fold max ys (max y a)" by (rule fold_max_acc)
    finally show ?thesis by simp
  next
    case False
    with Cons show ?thesis by simp
  qed
qed

lemma height_child: "(n, c) \<in> set es \<Longrightarrow> height c < height (Dir es)"
proof -
  assume "(n, c) \<in> set es"
  then have "height c \<in> set (map (\<lambda>(n, c). height c) es)" by force
  from fold_max_ge[OF this, of 0] show ?thesis by simp
qed

lemma disjoint_child:
  assumes "\<not> prefix src dest" "\<not> prefix dest src"
  shows "\<not> prefix (dest @ [n]) (src @ [m])" "\<not> prefix (src @ [m]) (dest @ [n])"
  using assms by (auto simp: prefix_snoc dest: append_prefixD)

lemma wf_child: "wf_tree (Dir es) \<Longrightarrow> (n, c) \<in> set es \<Longrightarrow> wf_tree c"
  by auto

lemma kind_of_simps [simp]:
  "kind_of (File x) = KFile" "kind_of (Dir es) = KDir" "kind_of Special = KOther"
  by (simp_all add: kind_of_def)

lemma copied_Nil [simp]: "copied isRoot [] = []"
  by (simp add: copied_def)

lemma copied_Cons:
  "copied isRoot ((n, c) # es) =
     (if (isRoot \<and> n \<in> COPY_IGNORE) \<or> c = Special then copied isRoot es
      else (n, copy_tree c) # copied isRoot es)"
  by (simp add: copied_def)

lemma lookup_child:
  "lookup fs p = Some (Dir xs) \<Longrightarrow> lookup fs (p @ [n]) = map_of xs n"
  by (simp add: lookup_append split: option.splits)

lemma map_of_fresh: "n \<notin> fst ` set xs \<Longrightarrow> map_of xs n = None"
  by (simp add: map_of_eq_None_iff)

text \<open>One step of the loop: a new entry appears at the end of the destination listing.\<close>

lemma put_new_entry:
  assumes "lookup fs dest = Some (Dir xs)" "n \<notin> fst ` set xs"
  shows "put fs (dest @ [n]) t = put fs dest (Dir (xs @ [(n, t)]))"
    and "lookup (put fs (dest @ [n]) t) dest = Some (Dir (xs @ [(n, t)]))"
proof -
  show eq: "put fs (dest @ [n]) t = put fs dest (Dir (xs @ [(n, t)]))"
    using assms by (simp add: put_child update_fresh)
  show "lookup (put fs (dest @ [n]) t) dest = Some (Dir (xs @ [(n, t)]))"
    unfolding eq using assms(1) by (simp add: lookup_put_same lookup_clear_way)
qed

lemma copy_loop_result:
  assumes dis: "\<not> prefix src dest" "\<not> prefix dest src"
    and recur: "\<And>n cs fs0. (n, Dir cs) \<in> set es \<Longrightarrow> lookup fs0 (src @ [n]) = Some (Dir cs)
        \<Longrightarrow> lookup fs0 (dest @ [n]) = None \<Longrightarrow> \<exists>ys. lookup fs0 dest = Some (Dir ys)
        \<Longrightarrow> recur fs0 (src @ [n]) (dest @ [n]) = (Ok, put fs0 (dest @ [n]) (copy_tree (Dir cs)))"
    and "distinct (map fst es)"
    and "\<forall>(n, c) \<in> set es. lookup fs (src @ [n]) = Some c"
    and "lookup fs dest = Some (Dir xs)"
    and "fst ` set xs \<inter> fst ` set es = {}"
  shows "copy_loop recur isRoot (map (\<lambda>(n, c). (n, kind_of c)) es) fs src dest
           = (Ok, put fs dest (Dir (xs @ copied isRoot es)))"
  using recur assms(4-)
proof (induction es arbitrary: fs xs)
  case Nil
  then show ?case by (simp add: put_same)
next
  case (Cons e es)
  obtain n c where e: "e = (n, c)" by (cases e)
  have IH: "\<And>fs xs. \<forall>(n, c) \<in> set es. lookup fs (src @ [n]) = Some c \<Longrightarrow>
      lookup fs dest = Some (Dir xs) \<Longrightarrow> fst ` set xs \<inter> fst ` set es = {} \<Longrightarrow>
      copy_loop recur isRoot (map (\<lambda>(n, c). (n, kind_of c)) es) fs src dest
           = (Ok, put fs dest (Dir (xs @ copied isRoot es)))"
    using Cons.IH Cons.prems(1,2) by simp
  have rest: "\<forall>(n, c) \<in> set es. lookup fs (src @ [n]) = Some c"
    and here: "lookup fs (src @ [n]) = Some c"
    and nxs: "n \<notin> fst ` set xs" and nes: "n \<notin> fst ` set es"
    and xses: "fst ` set xs \<inter> fst ` set es = {}"
    using Cons.prems e by auto
  have skip: "copy_loop recur isRoot (map (\<lambda>(n, c). (n, kind_of c)) es) fs src dest
           = (Ok, put fs dest (Dir (xs @ copied isRoot es)))"
    using IH[OF rest Cons.prems(4) xses] .
  have step: "copy_loop recur isRoot (map (\<lambda>(n, c). (n, kind_of c)) es)
                (put fs (dest @ [n]) t) src dest
           = (Ok, put fs dest (Dir (xs @ (n, t) # copied isRoot es)))" for t
  proof -
    let ?fs' = "put fs (dest @ [n]) t"
    have a: "\<forall>(m, c) \<in> set es. lookup ?fs' (src @ [m]) = Some c"
      using rest by (auto simp: lookup_put_other[OF disjoint_child[OF dis]])
    have b: "lookup ?fs' dest = Some (Dir (xs @ [(n, t)]))"
      using put_new_entry(2)[OF Cons.prems(4) nxs] .
    have c: "fst ` set (xs @ [(n, t)]) \<inter> fst ` set es = {}"
      using xses nes by auto
    from IH[OF a b c] show ?thesis
      by (simp add: put_new_entry(1)[OF Cons.prems(4) nxs] put_put)
  qed
  show ?case
  proof (cases "isRoot \<and> n \<in> COPY_IGNORE")
    case True
    then show ?thesis using skip e by (simp add: copied_Cons)
  next
    case False
    show ?thesis
    proof (cases c)
      case (File content)
      have ens: "ensureDir fs dest = Inr fs"
        using Cons.prems(4) by (simp add: ensureDir_def lookup_clear_way)
      have cp: "copyFileSync fs (src @ [n]) (dest @ [n]) = Inr (put fs (dest @ [n]) (File content))"
        using here File Cons.prems(4) nxs
        by (simp add: copyFileSync_def dirname_def lookup_child map_of_fresh)
      show ?thesis
        using False e File ens cp step[of "File content"]
        by (auto simp: copied_Cons dirname_def Let_def)
    next
      case (Dir cs)
      have "recur fs (src @ [n]) (dest @ [n]) = (Ok, put fs (dest @ [n]) (copy_tree (Dir cs)))"
        using Cons.prems(1)[of n cs fs] e Dir here Cons.prems(4) nxs
        by (simp add: lookup_child map_of_fresh)
      then show ?thesis
        using False e Dir step[of "copy_tree (Dir cs)"]
        by (auto simp: copied_Cons Let_def simp del: copy_tree.simps)
    next
      case Special
      then show ?thesis using False e skip by (auto simp: copied_Cons)
    qed
  qed
qed

lemma copyDir_result_aux:
  "wf_tree t \<Longrightarrow> t = Dir es \<Longrightarrow> lookup fs src = Some t \<Longrightarrow> \<not> prefix src dest
   \<Longrightarrow> \<not> prefix dest src \<Longrightarrow> fresh fs dest \<Longrightarrow> height t \<le> fuel
   \<Longrightarrow> copyDir fuel fs src dest isRoot = (Ok, put fs dest (Dir (copied isRoot es)))"
proof (induction t arbitrary: es fs src dest fuel isRoot)
  case (Dir xs)
  then have es: "xs = es" by simp
  from Dir.prems(7) obtain f where fuel: "fuel = Suc f" by (cases fuel) auto
  let ?fs1 = "put fs dest (Dir [])"
  have cw: "clear_way fs dest"
    using Dir.prems(6) by (auto simp: fresh_def lookup_clear_way)
  have ens: "ensureDir fs dest = Inr ?fs1"
    using Dir.prems(6) cw by (auto simp: fresh_def ensureDir_def put_same)
  have d1: "lookup ?fs1 dest = Some (Dir [])"
    using cw by (simp add: lookup_put_same)
  have s1: "lookup ?fs1 src = Some (Dir es)"
    using Dir.prems(3,4,5) es by (simp add: lookup_put_other)
  have rd: "readdirSync ?fs1 src = Inr (map (\<lambda>(n, c). (n, kind_of c)) es)"
    using s1 by (simp add: readdirSync_def)
  have recur: "copyDir f fs0 (src @ [n]) (dest @ [n]) False
        = (Ok, put fs0 (dest @ [n]) (copy_tree (Dir cs)))"
    if mem: "(n, Dir cs) \<in> set es" and l1: "lookup fs0 (src @ [n]) = Some (Dir cs)"
      and l2: "lookup fs0 (dest @ [n]) = None" and l3: "\<exists>ys. lookup fs0 dest = Some (Dir ys)"
    for n cs fs0
  proof -
    have wf: "wf_tree (Dir cs)" using wf_child[OF Dir.prems(1)] mem es by blast
    have fr: "fresh fs0 (dest @ [n])"
      using l2 l3 by (auto simp: fresh_def clear_way_child)
    have h: "height (Dir cs) \<le> f"
      using height_child[OF mem] Dir.prems(7) es fuel by simp
    have "copyDir f fs0 (src @ [n]) (dest @ [n]) False
        = (Ok, put fs0 (dest @ [n]) (Dir (copied False cs)))"
      using Dir.IH[of "(n, Dir cs)" "Dir cs" cs fs0 "src @ [n]" "dest @ [n]" f False]
        mem es wf l1 fr h disjoint_child[OF Dir.prems(4,5), of n n]
      by simp
    then show ?thesis by (simp add: copied_def)
  qed
  have loop: "copy_loop (\<lambda>fs' from to. copyDir f fs' from to False) isRoot
        (map (\<lambda>(n, c). (n, kind_of c)) es) ?fs1 src dest
      = (Ok, put ?fs1 dest (Dir ([] @ copied isRoot es)))"
  proof (rule copy_loop_result[OF Dir.prems(4,5)])
    show "distinct (map fst es)" using Dir.prems(1) es by simp
    show "\<forall>(n, c) \<in> set es. lookup ?fs1 (src @ [n]) = Some c"
    proof -
      have "distinct (map fst es)" using Dir.prems(1) es by simp
      then show ?thesis using s1 by (auto simp: lookup_child)
    qed
    show "lookup ?fs1 dest = Some (Dir [])" by (rule d1)
    show "fst ` set [] \<inter> fst ` set es = {}" by simp
  qed (rule recur)
  have ex: "existsSync fs src" using Dir.prems(3) by (simp add: existsSync_def)
  show ?case
    using ex ens rd loop by (simp add: fuel put_put)
qed simp_all

lemma copyDir_result:
  assumes "lookup fs src = Some (Dir es)" "wf_tree (Dir es)"
    and "\<not> prefix src dest" "\<not> prefix dest src" "fresh fs dest"
    and "height (Dir es) \<le> fuel"
  shows "copyDir fuel fs src dest isRoot = (Ok, put fs dest (Dir (copied isRoot es)))"
  using copyDir_result_aux[OF assms(2) refl assms(1,3,4,5,6)] .

subsection \<open>The recursive copy\<close>


lemma copy_tree_regular: "regular t \<Longrightarrow> copy_tree t = t"
proof (induction t)
  case (Dir es)
  have ns: "\<And>n c. (n, c) \<in> set es \<Longrightarrow> c \<noteq> Special" using Dir.prems by auto
  then have f: "filter (\<lambda>(n, c). c \<noteq> Special) es = es" by (auto simp: filter_id_conv)
  have "\<And>n c. (n, c) \<in> set es \<Longrightarrow> copy_tree c = c"
    using Dir.IH Dir.prems by fastforce
  then have "map (\<lambda>(n, c). (n, copy_tree c)) es = es"
    by (intro map_idI) auto
  with f show ?case by simp
qed simp_all

lemma regular_copy_tree: "t \<noteq> Special \<Longrightarrow> regular (copy_tree t)"
proof (induction t)
  case (Dir es)
  have "\<And>n c. (n, c) \<in> set es \<Longrightarrow> c \<noteq> Special \<Longrightarrow> regular (copy_tree c)"
    using Dir.IH by fastforce
  then show ?case by auto
qed simp_all

lemma regular_copied: "regular (Dir (copied isRoot es))"
  by (auto simp: copied_def regular_copy_tree)

lemma map_of_copied:
  "distinct (map fst es) \<Longrightarrow>
   map_of (copied isRoot es) n =
     (case map_of es n of
        None \<Rightarrow> None
      | Some c \<Rightarrow> if (isRoot \<and> n \<in> COPY_IGNORE) \<or> c = Special then None else Some (copy_tree c))"
proof (induction es)
  case Nil
  then show ?case by simp
next
  case (Cons e es)
  obtain m c where e: "e = (m, c)" by (cases e)
  have d: "distinct (map fst es)" and m: "m \<notin> fst ` set es" using Cons.prems e by auto
  have none: "map_of es m = None" using m by (simp add: map_of_eq_None_iff)
  show ?case
    using Cons.IH[OF d] e none
    by (auto simp: copied_Cons split: option.splits)
qed

lemma copy_tree_Dir: "copy_tree (Dir es) = Dir (copied False es)"
  by (simp add: copied_def)

lemma lookup_copied_special:
  "wf_tree t \<Longrightarrow> t = Dir es \<Longrightarrow> lookup t p = Some Special
   \<Longrightarrow> lookup (Dir (copied isRoot es)) p = None"
proof (induction t arbitrary: es p isRoot)
  case (Dir xs)
  then have es: "xs = es" by simp
  have d: "distinct (map fst es)" using Dir.prems(1) es by simp
  from Dir.prems(3) es obtain x q where p: "p = x # q" by (cases p) auto
  from Dir.prems(3) es p obtain c where c: "map_of es x = Some c" "lookup c q = Some Special"
    by (auto split: option.splits)
  have mem: "(x, c) \<in> set es" using c(1) by (rule map_of_SomeD)
  show ?case
  proof (cases c)
    case (File content)
    then show ?thesis using c by (cases q) auto
  next
    case Special
    then show ?thesis using p c d by (simp add: map_of_copied)
  next
    case inner: (Dir cs)
    have wf: "wf_tree (Dir cs)" using wf_child[OF Dir.prems(1)] mem es inner by blast
    have "lookup (Dir (copied False cs)) q = None"
      using Dir.IH[of "(x, c)" c cs q False] mem es inner wf c(2) by simp
    then show ?thesis
      using p c d inner by (simp add: map_of_copied copy_tree_Dir del: copy_tree.simps)
  qed
qed simp_all

lemma copied_True_filter:
  "copied True es =
     map (\<lambda>(n, c). (n, copy_tree c)) (filter (\<lambda>(n, c). n \<notin> COPY_IGNORE \<and> c \<noteq> Special) es)"
  by (simp add: copied_def)

text \<open>
  Claim C3, as amended. The source is a directory without repeated names, the destination
  is free and neither path lies inside the other; the fuel covers the height of the
  source. Then \<^verbatim>\<open>copyDir(src, dest, true)\<close> returns, and the destination lists, in the
  order of the source, the copies of the root entries that are not named \<open>dist\<close>, \<open>logs\<close>
  or \<open>.git\<close> and are regular files or directories. No name of the exclusion set is at
  the root of the destination; every other root entry that is a tree of regular files
  and directories is there in full, whatever the names inside it; the source is as it
  was. The witness is the example of the specification.
\<close>

theorem copyDir_root_exclusion:
  assumes "lookup fs src = Some (Dir es)" and "wf_tree (Dir es)"
    and "\<not> prefix src dest" and "\<not> prefix dest src" and "fresh fs dest"
    and "height (Dir es) \<le> fuel"
  shows "\<exists>fs'. copyDir fuel fs src dest True = (Ok, fs')
     \<and> lookup fs' dest = Some (Dir (map (\<lambda>(n, c). (n, copy_tree c))
                                    (filter (\<lambda>(n, c). n \<notin> COPY_IGNORE \<and> c \<noteq> Special) es)))
     \<and> (\<forall>n\<in>COPY_IGNORE. lookup fs' (dest @ [n]) = None)
     \<and> (\<forall>(n, c)\<in>set es. n \<notin> COPY_IGNORE \<and> regular c \<longrightarrow> lookup fs' (dest @ [n]) = Some c)
     \<and> lookup fs' src = Some (Dir es)"
proof -
  let ?fs' = "put fs dest (Dir (copied True es))"
  have run: "copyDir fuel fs src dest True = (Ok, ?fs')"
    using copyDir_result[OF assms] .
  have cw: "clear_way fs dest"
    using assms(5) by (auto simp: fresh_def lookup_clear_way)
  have d: "lookup ?fs' dest = Some (Dir (copied True es))"
    using cw by (simp add: lookup_put_same)
  have dist: "distinct (map fst es)" using assms(2) by simp
  have ig: "\<forall>n\<in>COPY_IGNORE. lookup ?fs' (dest @ [n]) = None"
    using dist by (auto simp: lookup_child[OF d] map_of_copied split: option.splits)
  have keep: "\<forall>(n, c)\<in>set es. n \<notin> COPY_IGNORE \<and> regular c \<longrightarrow> lookup ?fs' (dest @ [n]) = Some c"
  proof -
    have "lookup ?fs' (dest @ [n]) = Some c"
      if "(n, c) \<in> set es" "n \<notin> COPY_IGNORE" "regular c" for n c
    proof -
      have "map_of es n = Some c" using dist that(1) by simp
      moreover have "c \<noteq> Special" using that(3) by auto
      ultimately show ?thesis
        using dist that by (simp add: lookup_child[OF d] map_of_copied copy_tree_regular)
    qed
    then show ?thesis by auto
  qed
  have s: "lookup ?fs' src = Some (Dir es)"
    using assms(1,3,4) by (simp add: lookup_put_other)
  from run d ig keep s show ?thesis
    unfolding copied_True_filter by blast
qed

text \<open>
  The example of claim C3: the cache \<open>{a.txt, dist/, logs/, .git/}\<close> copied into the empty
  directory \<open>out\<close> leaves exactly \<open>a.txt\<close> there.
\<close>

theorem copyDir_root_exclusion_witness:
  "lookup cache_example [''work'', ''init_src'']
     = Some (Dir [(''a.txt'', File ''hello''),
                  (''dist'', Dir [(''bundle.js'', File ''b'')]),
                  (''logs'', Dir [(''run.log'', File ''l'')]),
                  (''.git'', Dir [(''HEAD'', File ''ref'')])])
   \<and> fresh cache_example [''work'', ''out'']
   \<and> lookup (snd (copyDir 2 cache_example [''work'', ''init_src''] [''work'', ''out''] True))
        [''work'', ''out''] = Some (Dir [(''a.txt'', File ''hello'')])
   \<and> fst (copyDir 2 cache_example [''work'', ''init_src''] [''work'', ''out''] True) = Ok"
proof -
  let ?es = "[(''a.txt'', File ''hello''),
                  (''dist'', Dir [(''bundle.js'', File ''b'')]),
                  (''logs'', Dir [(''run.log'', File ''l'')]),
                  (''.git'', Dir [(''HEAD'', File ''ref'')])]"
  have h1: "lookup cache_example [''work'', ''init_src''] = Some (Dir ?es)" by code_simp
  have h2: "wf_tree (Dir ?es)" by code_simp
  have h3: "\<not> prefix [''work'', ''init_src''] [''work'', ''out'']" by simp
  have h4: "\<not> prefix [''work'', ''out''] [''work'', ''init_src'']" by simp
  have h5: "fresh cache_example [''work'', ''out'']" by code_simp
  have h6: "height (Dir ?es) \<le> 2" by code_simp
  have f: "map (\<lambda>(n, c). (n, copy_tree c))
             (filter (\<lambda>(n, c). n \<notin> COPY_IGNORE \<and> c \<noteq> Special) ?es) = [(''a.txt'', File ''hello'')]"
    by (simp add: COPY_IGNORE_def)
  from copyDir_root_exclusion[OF h1 h2 h3 h4 h5 h6] h1 h5 show ?thesis
    unfolding f by auto
qed

text \<open>
  Claim C3 as stated fails on a cache with a symbolic link at its root: \<open>latest\<close> is not
  in the exclusion set and is not copied, and the directory \<^verbatim>\<open>node_modules\<close> below the
  root is not copied in full.
\<close>

theorem copyDir_excludes_more_counterexample:
  "lookup installed_example [''work'', ''init_src'', ''latest''] = Some Special
   \<and> ''latest'' \<notin> COPY_IGNORE
   \<and> fst (copyDir 4 installed_example [''work'', ''init_src''] [''work'', ''out''] True) = Ok
   \<and> lookup (snd (copyDir 4 installed_example [''work'', ''init_src''] [''work'', ''out''] True))
        [''work'', ''out'', ''latest''] = None
   \<and> lookup (snd (copyDir 4 installed_example [''work'', ''init_src''] [''work'', ''out''] True))
        [''work'', ''out'', ''node_modules'']
      \<noteq> lookup installed_example [''work'', ''init_src'', ''node_modules'']"
  by code_simp

text \<open>Directories named \<open>dist\<close> and \<open>logs\<close> below the root are copied.\<close>

lemma copyDir_nested_dist_example:
  "copyDir 3 nested_example [''work'', ''init_src''] [''work'', ''out''] True
     = (Ok, Dir [(''work'',
          Dir [(''init_src'',
                 Dir [(''a.txt'', File ''hello''),
                      (''dist'', Dir [(''bundle.js'', File ''b'')]),
                      (''src'', Dir [(''dist'', Dir [(''y.js'', File ''y'')]), (''logs'', Dir [])])]),
               (''out'',
                 Dir [(''a.txt'', File ''hello''),
                      (''src'', Dir [(''dist'', Dir [(''y.js'', File ''y'')]), (''logs'', Dir [])])])])])"
  by code_simp

text \<open>
  Why the destination must not lie inside the source: \<^verbatim>\<open>ensureDir(dest)\<close> puts the
  destination into the listing that \<^verbatim>\<open>readdirSync(src)\<close> returns next, and the copy
  descends into its own output. For a source that holds one file and the destination
  \<open>out\<close> inside it, no amount of fuel lets the copy return. (On a real disk the recursion
  ends in an error once the path is too long for the system.)
\<close>

lemma copyDir_into_itself:
  assumes "lookup fs p = Some (Dir [(''a.txt'', File c)])"
  shows "fst (copyDir fuel fs p (p @ [''out'']) isRoot) = OutOfFuel"
  using assms
proof (induction fuel arbitrary: fs p isRoot)
  case 0
  then show ?case by simp
next
  case (Suc fuel)
  let ?d = "p @ [''out'']"
  let ?fs1 = "put fs ?d (Dir [])"
  let ?fs2 = "put ?fs1 (?d @ [''a.txt'']) (File c)"
  have ni: "''a.txt'' \<notin> COPY_IGNORE" "''out'' \<notin> COPY_IGNORE" by (simp_all add: COPY_IGNORE_def)
  have ex: "existsSync fs p" using Suc.prems by (simp add: existsSync_def)
  have dn: "lookup fs ?d = None" using Suc.prems by (simp add: lookup_child)
  have cw: "clear_way fs ?d" using Suc.prems by (rule clear_way_child)
  have ens: "ensureDir fs ?d = Inr ?fs1" using dn cw by (simp add: ensureDir_def)
  have p1: "lookup ?fs1 p = Some (Dir [(''a.txt'', File c), (''out'', Dir [])])"
    using put_new_entry(2)[OF Suc.prems, of "''out''" "Dir []"] by simp
  have rd: "readdirSync ?fs1 p = Inr [(''a.txt'', KFile), (''out'', KDir)]"
    using p1 by (simp add: readdirSync_def)
  have d1: "lookup ?fs1 ?d = Some (Dir [])" using cw by (simp add: lookup_put_same)
  have ens2: "ensureDir ?fs1 ?d = Inr ?fs1" using d1 by (simp add: ensureDir_def lookup_clear_way)
  have a1: "lookup ?fs1 (p @ [''a.txt'']) = Some (File c)" using p1 by (simp add: lookup_child)
  have t1: "lookup ?fs1 (?d @ [''a.txt'']) = None" using d1 by (simp add: lookup_child del: append_assoc)
  have cp: "copyFileSync ?fs1 (p @ [''a.txt'']) (?d @ [''a.txt'']) = Inr ?fs2"
    using a1 t1 d1 by (simp add: copyFileSync_def dirname_def del: append_assoc)
  have d2: "lookup ?fs2 ?d = Some (Dir [(''a.txt'', File c)])"
    using put_new_entry(2)[OF d1, of "''a.txt''" "File c"] by simp
  have rec: "fst (copyDir fuel ?fs2 ?d (?d @ [''out'']) False) = OutOfFuel"
    using Suc.IH[OF d2] .
  then obtain fs3 where r3: "copyDir fuel ?fs2 ?d (?d @ [''out'']) False = (OutOfFuel, fs3)"
    by (cases "copyDir fuel ?fs2 ?d (?d @ [''out'']) False") auto
  show ?case
    using ex ens rd ens2 cp r3 ni
    by (simp add: Let_def dirname_def del: append_assoc)
qed

text \<open>No step of the copy creates a special entry.\<close>

lemma lookup_plain_below:
  "t = Dir [] \<or> t = File c \<Longrightarrow> lookup t q \<noteq> Some Special"
  by (cases q) auto

lemma put_no_new_special:
  "t = Dir [] \<or> t = File c \<Longrightarrow> lookup (put fs p t) q = Some Special
   \<Longrightarrow> lookup fs q = Some Special"
proof (induction fs p t arbitrary: q rule: put.induct)
  case (1 n t)
  then show ?case using lookup_plain_below[of t c q] by simp
next
  case (2 es x p t)
  show ?case
  proof (cases q)
    case Nil
    with 2 show ?thesis by simp
  next
    case (Cons y q')
    show ?thesis
    proof (cases "y = x")
      case True
      show ?thesis
      proof (cases "map_of es x")
        case None
        have "lookup (put (Dir []) p t) q' = Some Special"
          using 2(3) Cons True None by (simp add: update_conv')
        from 2(1)[OF 2(2)] this None have "lookup (Dir []) q' = Some Special" by simp
        then show ?thesis by (cases q') auto
      next
        case (Some ch)
        have "lookup (put ch p t) q' = Some Special"
          using 2(3) Cons True Some by (simp add: update_conv')
        from 2(1)[OF 2(2)] this Some have "lookup ch q' = Some Special" by simp
        then show ?thesis using Cons True Some by simp
      qed
    next
      case False
      with 2(3) Cons show ?thesis by (simp add: update_conv')
    qed
  qed
qed simp_all

lemma ensureDir_no_new_special:
  "ensureDir fs d = Inr fs' \<Longrightarrow> lookup fs' q = Some Special \<Longrightarrow> lookup fs q = Some Special"
  using put_no_new_special[of "Dir []" undefined fs d q]
  by (auto simp: ensureDir_def split: if_splits option.splits tree.splits)

lemma copyFileSync_no_new_special:
  "copyFileSync fs a b = Inr fs' \<Longrightarrow> lookup fs' q = Some Special \<Longrightarrow> lookup fs q = Some Special"
  by (auto simp: copyFileSync_def split: if_splits option.splits tree.splits
      dest: put_no_new_special[rotated])

lemma copy_loop_no_new_special:
  assumes recur: "\<And>fs0 a b st fs1 q. recur fs0 a b = (st, fs1) \<Longrightarrow> lookup fs1 q = Some Special
      \<Longrightarrow> lookup fs0 q = Some Special"
  shows "copy_loop recur isRoot entries fs src dest = (st, fs') \<Longrightarrow> lookup fs' q = Some Special
    \<Longrightarrow> lookup fs q = Some Special"
proof (induction entries arbitrary: fs)
  case Nil
  then show ?case by simp
next
  case (Cons entry rest)
  show ?case
  proof (cases "isRoot \<and> fst entry \<in> COPY_IGNORE")
    case True
    with Cons show ?thesis by simp
  next
    case False
    show ?thesis
    proof (cases "snd entry")
      case KDir
      obtain st1 fs1 where r: "recur fs (src @ [fst entry]) (dest @ [fst entry]) = (st1, fs1)"
        by (cases "recur fs (src @ [fst entry]) (dest @ [fst entry])") auto
      show ?thesis
      proof (cases "st1 = Ok")
        case True
        with Cons.prems False KDir r
        have "copy_loop recur isRoot rest fs1 src dest = (st, fs')" by (simp add: Let_def)
        from Cons.IH[OF this Cons.prems(2)] have "lookup fs1 q = Some Special" .
        with recur[OF r] show ?thesis .
      next
        case no: False
        with Cons.prems False KDir r have "fs' = fs1"
          by (cases st1) (auto simp: Let_def)
        with Cons.prems(2) recur[OF r] show ?thesis by simp
      qed
    next
      case KFile
      show ?thesis
      proof (cases "ensureDir fs (dirname (dest @ [fst entry]))")
        case (Inl e)
        with Cons.prems False KFile show ?thesis by (simp add: Let_def)
      next
        case (Inr fs1)
        note ens = ensureDir_no_new_special[OF Inr]
        show ?thesis
        proof (cases "copyFileSync fs1 (src @ [fst entry]) (dest @ [fst entry])")
          case (Inl e)
          with Cons.prems False KFile Inr ens show ?thesis by (simp add: Let_def)
        next
          case cp: (Inr fs2)
          with Cons.prems False KFile Inr
          have "copy_loop recur isRoot rest fs2 src dest = (st, fs')" by (simp add: Let_def)
          from Cons.IH[OF this Cons.prems(2)] have "lookup fs2 q = Some Special" .
          with copyFileSync_no_new_special[OF cp] ens show ?thesis by blast
        qed
      qed
    next
      case KOther
      with Cons False show ?thesis by (simp add: Let_def)
    qed
  qed
qed

lemma copyDir_no_new_special:
  "copyDir fuel fs src dest isRoot = (st, fs') \<Longrightarrow> lookup fs' q = Some Special
   \<Longrightarrow> lookup fs q = Some Special"
proof (induction fuel arbitrary: fs src dest isRoot st fs' q)
  case 0
  then show ?case by simp
next
  case (Suc fuel)
  show ?case
  proof (cases "existsSync fs src")
    case False
    with Suc.prems show ?thesis by simp
  next
    case True
    show ?thesis
    proof (cases "ensureDir fs dest")
      case (Inl e)
      with Suc.prems True show ?thesis by simp
    next
      case (Inr fs1)
      note ens = ensureDir_no_new_special[OF Inr]
      show ?thesis
      proof (cases "readdirSync fs1 src")
        case (Inl e)
        with Suc.prems True Inr ens show ?thesis by simp
      next
        case rd: (Inr entries)
        with Suc.prems True Inr
        have loop: "copy_loop (\<lambda>fs' from to. copyDir fuel fs' from to False) isRoot entries fs1 src dest
            = (st, fs')" by simp
        have "lookup fs1 q = Some Special"
          by (rule copy_loop_no_new_special[OF _ loop Suc.prems(2)]) (rule Suc.IH)
        with ens show ?thesis .
      qed
    qed
  qed
qed

lemma fresh_nothing_below: "fresh fs dest \<Longrightarrow> lookup fs (dest @ q) \<noteq> Some Special"
  by (cases q) (auto simp: fresh_def lookup_append)

lemma copyDir_fresh_dest_no_special:
  assumes "fresh fs dest"
  shows "lookup (snd (copyDir fuel fs src dest isRoot)) (dest @ q) \<noteq> Some Special"
  using copyDir_no_new_special[of fuel fs src dest isRoot _ _ "dest @ q"]
    fresh_nothing_below[OF assms, of q]
  by (cases "copyDir fuel fs src dest isRoot") auto

text \<open>
  Claim C10. \<^verbatim>\<open>copyDir\<close> never creates an entry that is neither a regular file nor a
  directory: when the destination is free, nothing of that kind is below it afterwards,
  whether the copy returned, threw or did not end within the fuel. When moreover the
  source is a directory without repeated names, neither path lies inside the other and
  the fuel covers the height of the source, \<^verbatim>\<open>copyDir(src, dest, true)\<close> returns without
  an error, the destination is a tree of regular files and directories only, and at
  every path where the source has a special entry the destination has nothing.
\<close>

theorem copyDir_omits_special:
  assumes "fresh fs dest"
  shows "(\<forall>q. lookup (snd (copyDir fuel fs src dest True)) (dest @ q) \<noteq> Some Special)
     \<and> (lookup fs src = Some (Dir es) \<and> wf_tree (Dir es) \<and> \<not> prefix src dest
          \<and> \<not> prefix dest src \<and> height (Dir es) \<le> fuel \<longrightarrow>
        (\<exists>fs' t. copyDir fuel fs src dest True = (Ok, fs')
           \<and> lookup fs' dest = Some t \<and> regular t
           \<and> (\<forall>p. lookup (Dir es) p = Some Special \<longrightarrow> lookup fs' (dest @ p) = None)))"
proof -
  have a: "\<forall>q. lookup (snd (copyDir fuel fs src dest True)) (dest @ q) \<noteq> Some Special"
    using copyDir_fresh_dest_no_special[OF assms] by blast
  have b: "\<exists>fs' t. copyDir fuel fs src dest True = (Ok, fs')
           \<and> lookup fs' dest = Some t \<and> regular t
           \<and> (\<forall>p. lookup (Dir es) p = Some Special \<longrightarrow> lookup fs' (dest @ p) = None)"
    if h: "lookup fs src = Some (Dir es)" "wf_tree (Dir es)" "\<not> prefix src dest"
      "\<not> prefix dest src" "height (Dir es) \<le> fuel"
  proof -
    let ?fs' = "put fs dest (Dir (copied True es))"
    have run: "copyDir fuel fs src dest True = (Ok, ?fs')"
      using copyDir_result[OF h(1,2,3,4) assms h(5)] .
    have cw: "clear_way fs dest"
      using assms by (auto simp: fresh_def lookup_clear_way)
    have d: "lookup ?fs' dest = Some (Dir (copied True es))"
      using cw by (simp add: lookup_put_same)
    have "lookup ?fs' (dest @ p) = None" if "lookup (Dir es) p = Some Special" for p
      using lookup_copied_special[OF h(2) refl that, of True] d
      by (simp add: lookup_append)
    with run d regular_copied[of True es] show ?thesis by blast
  qed
  from a b show ?thesis by blast
qed

text \<open>The witness of claim C10: a cache with a symbolic link at its root and one under
  \<^verbatim>\<open>node_modules/.bin\<close>.\<close>

theorem copyDir_omits_special_witness:
  "lookup installed_example [''work'', ''init_src'', ''node_modules'', ''.bin'', ''vite''] = Some Special
   \<and> fresh installed_example [''work'', ''out'']
   \<and> copyDir 4 installed_example [''work'', ''init_src''] [''work'', ''out''] True
      = (Ok, Dir [(''work'',
           Dir [(''init_src'',
              Dir [(''package.json'', File ''{}''),
                   (''latest'', Special),
                   (''node_modules'',
                      Dir [(''.bin'', Dir [(''vite'', Special)]),
                           (''vite'', Dir [(''index.js'', File ''v'')])])]),
                (''out'',
              Dir [(''package.json'', File ''{}''),
                   (''node_modules'',
                      Dir [(''.bin'', Dir []),
                           (''vite'', Dir [(''index.js'', File ''v'')])])])])])
   \<and> lookup (snd (copyDir 4 installed_example [''work'', ''init_src''] [''work'', ''out''] True))
        ([''work'', ''out''] @ [''node_modules'', ''.bin'', ''vite'']) = None"
proof -
  let ?es = "[(''package.json'', File ''{}''),
                   (''latest'', Special),
                   (''node_modules'',
                      Dir [(''.bin'', Dir [(''vite'', Special)]),
                           (''vite'', Dir [(''index.js'', File ''v'')])])]"
  have h1: "lookup installed_example [''work'', ''init_src''] = Some (Dir ?es)" by code_simp
  have h2: "wf_tree (Dir ?es)" by code_simp
  have h3: "\<not> prefix [''work'', ''init_src''] [''work'', ''out'']" by simp
  have h4: "\<not> prefix [''work'', ''out''] [''work'', ''init_src'']" by simp
  have h5: "fresh installed_example [''work'', ''out'']" by code_simp
  have h6: "height (Dir ?es) \<le> 4" by code_simp
  have sp: "lookup (Dir ?es) [''node_modules'', ''.bin'', ''vite''] = Some Special" by simp
  have l: "lookup installed_example [''work'', ''init_src'', ''node_modules'', ''.bin'', ''vite''] = Some Special"
    by code_simp
  have v: "copyDir 4 installed_example [''work'', ''init_src''] [''work'', ''out''] True
      = (Ok, Dir [(''work'',
           Dir [(''init_src'',
              Dir [(''package.json'', File ''{}''),
                   (''latest'', Special),
                   (''node_modules'',
                      Dir [(''.bin'', Dir [(''vite'', Special)]),
                           (''vite'', Dir [(''index.js'', File ''v'')])])]),
                (''out'',
              Dir [(''package.json'', File ''{}''),
                   (''node_modules'',
                      Dir [(''.bin'', Dir []),
                           (''vite'', Dir [(''index.js'', File ''v'')])])])])])"
    by code_simp
  from copyDir_omits_special[OF h5, of 4 "[''work'', ''init_src'']" ?es] h1 h2 h3 h4 h6 sp l h5 v
  show ?thesis by auto
qed

subsection \<open>Clearing the target\<close>


lemma nonempty_dir_iff:
  "nonempty_dir fs p \<longleftrightarrow> existsSync fs p \<and> isEmptyDir fs p = Inr False"
  by (auto simp: nonempty_dir_def existsSync_def isEmptyDir_def readdirSync_def
      split: option.splits tree.splits list.splits)

lemma isEmptyDir_True:
  "existsSync fs p \<Longrightarrow> isEmptyDir fs p = Inr True \<Longrightarrow> lookup fs p = Some (Dir [])"
  by (auto simp: existsSync_def isEmptyDir_def readdirSync_def
      split: option.splits tree.splits list.splits)

lemma clear_target_events:
  assumes "clear_target e fs = (c, evs, fs1)"
  shows "RmSync p \<in> set evs \<longleftrightarrow>
    p = targetDir e \<and> nonempty_dir fs (targetDir e)
      \<and> (forceRebuild e \<or> confirm (overwriteAnswer e) False)"
proof (cases "nonempty_dir fs (targetDir e)")
  case True
  then have "existsSync fs (targetDir e)" "isEmptyDir fs (targetDir e) = Inr False"
    by (simp_all add: nonempty_dir_iff)
  with assms True show ?thesis
    by (auto simp: clear_target_def Let_def rmSync_def split: if_splits)
next
  case False
  then have "\<not> existsSync fs (targetDir e) \<or> isEmptyDir fs (targetDir e) \<noteq> Inr False"
    by (simp add: nonempty_dir_iff)
  with assms False show ?thesis
    by (auto simp: clear_target_def split: if_splits sum.splits bool.splits)
qed

lemma clear_target_declined:
  assumes "nonempty_dir fs (targetDir e)" "\<not> forceRebuild e" "\<not> confirm (overwriteAnswer e) False"
  shows "clear_target e fs = (Some 1, [], fs)"
proof -
  have "existsSync fs (targetDir e)" "isEmptyDir fs (targetDir e) = Inr False"
    using assms(1) by (simp_all add: nonempty_dir_iff)
  with assms(2,3) show ?thesis by (simp add: clear_target_def)
qed

lemma reuse_template_events:
  "RmSync p \<in> set (events (reuse_template fuel e evs fs)) \<longleftrightarrow> RmSync p \<in> set evs"
  by (auto simp: reuse_template_def Let_def split: sum.splits bool.splits prod.splits status.splits)

lemma main_events:
  "RmSync p \<in> set (events (main fuel e fs)) \<longleftrightarrow>
     truthy (nodeVersion e) \<and> truthy (npmVersion e) \<and> p = targetDir e
     \<and> nonempty_dir fs (targetDir e) \<and> (forceRebuild e \<or> confirm (overwriteAnswer e) False)"
proof (cases "truthy (nodeVersion e) \<and> truthy (npmVersion e)")
  case False
  then show ?thesis by (auto simp: main_def falsy_def)
next
  case True
  obtain c evs fs1 where ct: "clear_target e fs = (c, evs, fs1)"
    by (cases "clear_target e fs") auto
  have "RmSync p \<in> set (events (main fuel e fs)) \<longleftrightarrow> RmSync p \<in> set evs"
    using True ct by (cases c) (simp_all add: main_def falsy_def reuse_template_events)
  with clear_target_events[OF ct] True show ?thesis by simp
qed

text \<open>
  Claim C2, as amended. \<^verbatim>\<open>fs.rmSync\<close> is called on a path in a run if and only if the run
  gets as far as the target directory (no \<^verbatim>\<open>--help\<close>, \<^verbatim>\<open>node\<close> and \<^verbatim>\<open>npm\<close> found), the path
  is the target directory, the target exists and is not empty, and \<^verbatim>\<open>--force\<close> was passed
  or the line typed at the overwrite prompt is \<open>y\<close> or \<open>yes\<close>. A run that gets as far,
  finds a non-empty target and has neither \<^verbatim>\<open>--force\<close> nor the confirmation exits with
  code 1, having called nothing and changed nothing.
\<close>

theorem clear_iff_confirmed:
  "(RmSync p \<in> set (events (init_js fuel e fs)) \<longleftrightarrow>
      reaches_target e \<and> p = targetDir e \<and> nonempty_dir fs (targetDir e)
      \<and> (forceRebuild e \<or> confirm (overwriteAnswer e) False))
   \<and> (reaches_target e \<and> nonempty_dir fs (targetDir e) \<and> \<not> forceRebuild e
        \<and> \<not> confirm (overwriteAnswer e) False
      \<longrightarrow> init_js fuel e fs = \<lparr>outcome = Exit 1, events = [], disk = fs\<rparr>)"
proof -
  have a: "RmSync p \<in> set (events (init_js fuel e fs)) \<longleftrightarrow>
      reaches_target e \<and> p = targetDir e \<and> nonempty_dir fs (targetDir e)
      \<and> (forceRebuild e \<or> confirm (overwriteAnswer e) False)"
    by (cases "showHelp e") (auto simp: init_js_def reaches_target_def main_events)
  have b: "init_js fuel e fs = \<lparr>outcome = Exit 1, events = [], disk = fs\<rparr>"
    if "reaches_target e" "nonempty_dir fs (targetDir e)" "\<not> forceRebuild e"
      "\<not> confirm (overwriteAnswer e) False"
    using that clear_target_declined[OF that(2,3,4)]
    by (simp add: init_js_def reaches_target_def main_def falsy_def)
  from a b show ?thesis by blast
qed

theorem clear_iff_confirmed_witness:
  "reaches_target declined_env \<and> nonempty_dir cached_disk (targetDir declined_env)
   \<and> \<not> forceRebuild declined_env \<and> \<not> confirm (overwriteAnswer declined_env) False
   \<and> init_js 3 declined_env cached_disk = \<lparr>outcome = Exit 1, events = [], disk = cached_disk\<rparr>
   \<and> RmSync (targetDir in_place_env) \<in> set (events (init_js 3 in_place_env cached_disk))
   \<and> confirm (overwriteAnswer in_place_env) False"
proof -
  have h: "reaches_target declined_env" "nonempty_dir cached_disk (targetDir declined_env)"
    "\<not> forceRebuild declined_env" "\<not> confirm (overwriteAnswer declined_env) False"
    by code_simp+
  have k: "reaches_target in_place_env" "nonempty_dir cached_disk (targetDir in_place_env)"
    "confirm (overwriteAnswer in_place_env) False"
    by code_simp+
  from clear_iff_confirmed[of "targetDir in_place_env" 3 in_place_env cached_disk]
    clear_iff_confirmed[of "targetDir declined_env" 3 declined_env cached_disk] h k
  show ?thesis by simp
qed

text \<open>
  Claim C2 as stated fails in a run with \<^verbatim>\<open>--force\<close> and a non-empty target when \<^verbatim>\<open>npm\<close> is
  not found: the run exits with code 1 before the target is looked at.
\<close>

theorem clear_needs_prerequisites_counterexample:
  "nonempty_dir cached_disk (targetDir npm_missing_env) \<and> forceRebuild npm_missing_env
   \<and> RmSync (targetDir npm_missing_env) \<notin> set (events (init_js 3 npm_missing_env cached_disk))
   \<and> init_js 3 npm_missing_env cached_disk = \<lparr>outcome = Exit 1, events = [], disk = cached_disk\<rparr>"
  by code_simp

subsection \<open>Reusing the cache in place\<close>

lemma lookup_remove_same: "p \<noteq> [] \<Longrightarrow> lookup (remove fs p) p = None"
  by (induction fs p rule: remove.induct)
     (auto simp: delete_conv' update_conv' split: option.splits)

lemma clear_target_leaves_free:
  assumes "clear_target e fs = (None, evs, fs1)"
  shows "lookup fs1 (targetDir e) = None \<or> lookup fs1 (targetDir e) = Some (Dir [])"
proof (cases "existsSync fs (targetDir e)")
  case False
  with assms show ?thesis by (simp add: clear_target_def existsSync_def)
next
  case True
  show ?thesis
  proof (cases "isEmptyDir fs (targetDir e)")
    case (Inl err)
    with assms True show ?thesis by (simp add: clear_target_def)
  next
    case (Inr b)
    show ?thesis
    proof (cases b)
      case True
      with assms \<open>existsSync fs (targetDir e)\<close> Inr isEmptyDir_True[of fs "targetDir e"]
      show ?thesis by (simp add: clear_target_def)
    next
      case False
      with assms \<open>existsSync fs (targetDir e)\<close> Inr show ?thesis
        by (auto simp: clear_target_def Let_def rmSync_def lookup_remove_same split: if_splits)
    qed
  qed
qed

lemma reuse_template_not_in_place:
  assumes "lookup fs (targetDir e) = None \<or> lookup fs (targetDir e) = Some (Dir [])"
  shows "outcome (reuse_template fuel e evs fs) \<noteq> InPlace"
proof (cases "resolve e TEMPLATE_DIR = targetDir e")
  case True
  with assms show ?thesis
    by (auto simp: reuse_template_def Let_def existsSync_def isEmptyDir_def readdirSync_def)
next
  case False
  then show ?thesis
    by (auto simp: reuse_template_def Let_def split: sum.splits bool.splits prod.splits status.splits)
qed

lemma in_place_unreachable: "outcome (init_js fuel e fs) \<noteq> InPlace"
proof -
  obtain c evs fs1 where ct: "clear_target e fs = (c, evs, fs1)"
    by (cases "clear_target e fs") auto
  show ?thesis
  proof (cases c)
    case None
    with ct clear_target_leaves_free[of e fs evs fs1] reuse_template_not_in_place[of fs1 e fuel evs]
    show ?thesis by (simp add: init_js_def main_def)
  next
    case (Some code)
    with ct show ?thesis by (simp add: init_js_def main_def)
  qed
qed

lemma reuse_template_same_path_no_copy:
  assumes "resolve e TEMPLATE_DIR = targetDir e"
  shows "events (reuse_template fuel e evs fs) = evs \<and> disk (reuse_template fuel e evs fs) = fs"
  using assms by (auto simp: reuse_template_def Let_def split: sum.splits bool.splits)

lemma same_path_no_copy:
  assumes "resolve e TEMPLATE_DIR = targetDir e"
  shows "CopyDir a b \<notin> set (events (init_js fuel e fs))"
proof -
  obtain c evs fs1 where ct: "clear_target e fs = (c, evs, fs1)"
    by (cases "clear_target e fs") auto
  have "CopyDir a b \<notin> set evs"
    using ct by (auto simp: clear_target_def Let_def split: if_splits sum.splits bool.splits prod.splits status.splits)
  with ct reuse_template_same_path_no_copy[OF assms] show ?thesis
    by (cases c) (simp_all add: init_js_def main_def)
qed

text \<open>
  Claim C4 at the run that asks for the cached scaffold in place: the target is the
  default \<^verbatim>\<open>init_src\<close>, which is the cache; the overwrite is confirmed, so the cache is
  cleared; then the cached scaffold is requested, the template directory is missing, and
  the run exits with code 1. The disk is not as it was. The lemmas before it show that
  the branch \<^verbatim>\<open>Using cached scaffold in place\<close> is never reached, in any run, and that a
  run whose target is the cache never copies.
\<close>

theorem in_place_reuse_clears_cache:
  "resolve in_place_env TEMPLATE_DIR = targetDir in_place_env
   \<and> confirm (reuseAnswer in_place_env) False
   \<and> lookup cached_disk (targetDir in_place_env) = Some (Dir [(''a.txt'', File ''hello'')])
   \<and> init_js fuel in_place_env cached_disk
      = \<lparr>outcome = Exit 1, events = [RmSync [''work'', ''init_src'']],
         disk = Dir [(''work'', Dir [])]\<rparr>
   \<and> lookup (disk (init_js fuel in_place_env cached_disk)) (targetDir in_place_env) = None"
proof -
  have a: "resolve in_place_env TEMPLATE_DIR = targetDir in_place_env" by code_simp
  have b: "confirm (reuseAnswer in_place_env) False" by code_simp
  have c: "lookup cached_disk (targetDir in_place_env) = Some (Dir [(''a.txt'', File ''hello'')])"
    by code_simp
  have ct: "clear_target in_place_env cached_disk
      = (None, [RmSync [''work'', ''init_src'']], Dir [(''work'', Dir [])])"
    by code_simp
  have t: "targetDir in_place_env = [''work'', ''init_src'']" by code_simp
  have ex: "\<not> existsSync (Dir [(''work'', Dir [])]) (resolve in_place_env TEMPLATE_DIR)"
    unfolding a t by code_simp
  have f: "\<not> falsy (nodeVersion in_place_env)" "\<not> falsy (npmVersion in_place_env)"
    "\<not> showHelp in_place_env" "\<not> forceRebuild in_place_env"
    by code_simp+
  have r: "init_js fuel in_place_env cached_disk
      = \<lparr>outcome = Exit 1, events = [RmSync [''work'', ''init_src'']],
         disk = Dir [(''work'', Dir [])]\<rparr>"
    using f ct b ex by (simp add: init_js_def main_def reuse_template_def Let_def)
  have l: "lookup (Dir [(''work'', Dir [])]) [''work'', ''init_src''] = None" by simp
  from a b c r l t show ?thesis by simp
qed

text \<open>The reuse path of \<^verbatim>\<open>main\<close> with a target outside the cache: the run returns after the
  copy, and the disk is the one \<^verbatim>\<open>copyDir\<close> leaves.\<close>

lemma reuse_path_copies:
  assumes "reaches_target e" "\<not> forceRebuild e" "confirm (reuseAnswer e) False"
    and ct: "clear_target e fs = (None, evs, fs1)"
    and tpl: "lookup fs1 (resolve e TEMPLATE_DIR) = Some (Dir es)" "es \<noteq> []" "wf_tree (Dir es)"
    and dis: "\<not> prefix (resolve e TEMPLATE_DIR) (targetDir e)"
      "\<not> prefix (targetDir e) (resolve e TEMPLATE_DIR)"
    and cw: "clear_way fs1 (targetDir e)" and h: "height (Dir es) \<le> fuel"
  shows "init_js fuel e fs =
     \<lparr>outcome = Copied, events = evs @ [CopyDir (resolve e TEMPLATE_DIR) (targetDir e)],
      disk = put fs1 (targetDir e) (Dir (copied True es))\<rparr>"
proof -
  have fr: "fresh fs1 (targetDir e)"
    using clear_target_leaves_free[OF ct] cw by (auto simp: fresh_def)
  have cp: "copyDir fuel fs1 (resolve e TEMPLATE_DIR) (targetDir e) True
      = (Ok, put fs1 (targetDir e) (Dir (copied True es)))"
    using copyDir_result[OF tpl(1,3) dis fr h] .
  have ex: "existsSync fs1 (resolve e TEMPLATE_DIR)"
    using tpl(1) by (simp add: existsSync_def)
  have em: "isEmptyDir fs1 (resolve e TEMPLATE_DIR) = Inr False"
    using tpl(1,2) by (simp add: isEmptyDir_def existsSync_def readdirSync_def)
  have ne: "resolve e TEMPLATE_DIR \<noteq> targetDir e" using dis by auto
  show ?thesis
    using assms(1,2,3) ct ex em ne cp
    by (simp add: init_js_def main_def reaches_target_def falsy_def reuse_template_def Let_def)
qed

subsection \<open>The install steps\<close>

text \<open>
  Claim C9. The first \<^verbatim>\<open>npm install\<close> runs in the target directory. When its status is
  not \<open>0\<close> the run exits with code 1 and that call is the only one made. When it is \<open>0\<close>
  the second call runs in \<^verbatim>\<open>src/frontend\<close>, in the world the first call left, and the run
  finishes or exits with code 1 by the second status.
\<close>

theorem install_steps_sequential:
  "(fst (spawnSync (install_call pf target env) (world st)) \<noteq> Some 0 \<longrightarrow>
      install_steps spawnSync pf target env st
        = (Exit 1, \<lparr>world = snd (spawnSync (install_call pf target env) (world st)),
                     spawned = spawned st @ [install_call pf target env]\<rparr>))
   \<and> (fst (spawnSync (install_call pf target env) (world st)) = Some 0 \<longrightarrow>
      (let w1 = snd (spawnSync (install_call pf target env) (world st));
           second = spawnSync (install_call pf (target @ [''src'', ''frontend'']) env) w1
       in install_steps spawnSync pf target env st
        = (if fst second = Some 0 then Finished else Exit 1,
           \<lparr>world = snd second,
            spawned = spawned st @ [install_call pf target env,
                                     install_call pf (target @ [''src'', ''frontend'']) env]\<rparr>)))"
  by (simp add: install_steps_def runNpmInstall_def Let_def)

theorem install_steps_sequential_witness:
  "fst (root_fails (install_call posix [''work'', ''out''] []) 0) \<noteq> Some 0
   \<and> install_steps root_fails posix [''work'', ''out''] [] \<lparr>world = 0, spawned = []\<rparr>
      = (Exit 1, \<lparr>world = 1,
           spawned = [\<lparr>command = ''npm'', args = [''install'', ''--no-audit''],
                       cwd = [''work'', ''out''], penv = []\<rparr>]\<rparr>)
   \<and> fst (frontend_fails (install_call posix [''work'', ''out''] []) 0) = Some 0
   \<and> install_steps frontend_fails posix [''work'', ''out''] [] \<lparr>world = 0, spawned = []\<rparr>
      = (Exit 1, \<lparr>world = 2,
           spawned = [\<lparr>command = ''npm'', args = [''install'', ''--no-audit''],
                       cwd = [''work'', ''out''], penv = []\<rparr>,
                      \<lparr>command = ''npm'', args = [''install'', ''--no-audit''],
                       cwd = [''work'', ''out'', ''src'', ''frontend''], penv = []\<rparr>]\<rparr>)"
proof -
  have c1: "install_call posix [''work'', ''out''] []
      = \<lparr>command = ''npm'', args = [''install'', ''--no-audit''], cwd = [''work'', ''out''], penv = []\<rparr>"
    by (simp add: install_call_def posix_def npmCommand_def)
  have c2: "install_call posix ([''work'', ''out''] @ [''src'', ''frontend'']) []
      = \<lparr>command = ''npm'', args = [''install'', ''--no-audit''],
         cwd = [''work'', ''out'', ''src'', ''frontend''], penv = []\<rparr>"
    by (simp add: install_call_def posix_def npmCommand_def)
  from install_steps_sequential[of root_fails posix "[''work'', ''out'']" "[]" "\<lparr>world = 0, spawned = []\<rparr>"]
    install_steps_sequential[of frontend_fails posix "[''work'', ''out'']" "[]" "\<lparr>world = 0, spawned = []\<rparr>"]
  show ?thesis
    unfolding c1 c2 by (simp add: root_fails_def frontend_fails_def Let_def)
qed

end
